theory Spec2Isabelle
  imports Complex_Main "HOL-Library.Word"
begin

section \<open>Machine integers and the microsecond counter\<close>

text \<open>
  The firmware runs on 32-bit ARM microcontrollers: \<open>unsigned long\<close> and \<open>uint32_t\<close>
  are 32-bit words, \<open>uint8_t\<close> is an 8-bit word.  Arithmetic on them wraps around.
  The Arduino call \<open>micros()\<close> returns the free-running microsecond counter; it is an
  input of every function that reads it.
\<close>

type_synonym u8 = "8 word"
type_synonym u16 = "16 word"
type_synonym u32 = "32 word"

text \<open>\<open>V2Base::getUsecSince(since)\<close>: \<open>(uint32_t)(micros() - since)\<close>, with the value
  read from \<open>micros()\<close> as first argument.\<close>

definition getUsecSince :: "u32 \<Rightarrow> u32 \<Rightarrow> u32" where
  "getUsecSince micros since = micros - since"

section \<open>V2Buttons: the per-button state machine\<close>

record Config =
  clickUsec :: u32
  holdUsec :: u32

datatype State = Idle | WaitDown | Down | Hold | Up | Reset

text \<open>
  The fields of \<open>V2Buttons::Button\<close>.  \<open>btn_config\<close> is the pointer \<open>_config\<close>
  (\<open>None\<close> is the null pointer); the \<open>_next\<close> pointer is the tail of the list
  the button is stored in.
\<close>

record Button =
  btn_config :: "Config option"
  btn_pin :: u8
  btn_high :: bool
  btn_pushpull :: bool
  btn_state :: State
  btn_clicks :: u8
  btn_usec :: u32
  btn_event :: u32
  btn_busy :: bool

text \<open>The constructor \<open>Button(config, pin, high, pushpull)\<close> with the default member
  initialisers.\<close>

definition Button_new :: "Config option \<Rightarrow> u8 \<Rightarrow> bool \<Rightarrow> bool \<Rightarrow> Button" where
  "Button_new cfg p h pp =
     \<lparr>btn_config = cfg, btn_pin = p, btn_high = h, btn_pushpull = pp,
      btn_state = Idle, btn_clicks = 0, btn_usec = 0, btn_event = 0, btn_busy = False\<rparr>"

definition getEvent :: "Button \<Rightarrow> u32" where
  "getEvent b = btn_event b"

text \<open>The virtual hooks a subclass overrides; a call is recorded in the order it is made.\<close>

datatype hook = HandleDown | HandleUp | HandleClick u8 | HandleHold u8 | HandleRelease

text \<open>
  \<open>V2Buttons::Button::loop()\<close>.  \<open>level\<close> is what \<open>digitalRead(_pin)\<close> returns
  (\<open>True\<close> for HIGH), \<open>now\<close> is what \<open>micros()\<close> returns (every path through the
  function reads it at most once), \<open>ev\<close> is the global counter \<open>_buttons.event\<close>.
  The result is the updated counter, the updated button and the hooks called; the
  value the C++ function returns is \<open>btn_busy\<close> of the updated button.
\<close>

definition Button_loop :: "bool \<Rightarrow> u32 \<Rightarrow> u32 \<Rightarrow> Button \<Rightarrow> u32 \<times> Button \<times> hook list" where
  "Button_loop level now ev b =
    (let down = (level = btn_high b) in
     case btn_state b of
       Idle \<Rightarrow>
         if down then
           (ev + 1, b\<lparr>btn_state := WaitDown, btn_usec := now, btn_event := ev, btn_busy := True\<rparr>, [])
         else (ev, b, [])
     | WaitDown \<Rightarrow>
         if now - btn_usec b < 5 * 1000 then (ev, b, [])
         else if down then (ev, b\<lparr>btn_state := Down\<rparr>, [HandleDown])
         else (ev, b\<lparr>btn_state := Reset\<rparr>, [])
     | Down \<Rightarrow>
         if down then
           (case btn_config b of
              None \<Rightarrow> (ev, b\<lparr>btn_busy := False\<rparr>, [])
            | Some c \<Rightarrow>
                if holdUsec c = 0 then (ev, b\<lparr>btn_busy := False\<rparr>, [])
                else if now - btn_usec b < holdUsec c then (ev, b, [])
                else (ev, b\<lparr>btn_state := Hold\<rparr>, [HandleHold (btn_clicks b)]))
         else (ev, b\<lparr>btn_state := Up, btn_usec := now, btn_busy := True\<rparr>, [])
     | Hold \<Rightarrow>
         if down then (ev, b\<lparr>btn_busy := False\<rparr>, [])
         else (ev, b\<lparr>btn_state := Reset, btn_busy := True\<rparr>, [HandleRelease, HandleUp])
     | Up \<Rightarrow>
         (let click = (ev, b\<lparr>btn_state := Reset\<rparr>, [HandleClick (btn_clicks b), HandleUp]) in
          case btn_config b of
            None \<Rightarrow> click
          | Some c \<Rightarrow>
              if clickUsec c > 0 then
                (if down then
                   (ev, b\<lparr>btn_state := Down, btn_clicks := btn_clicks b + 1, btn_usec := now\<rparr>, [])
                 else if now - btn_usec b < clickUsec c then (ev, b, [])
                 else click)
              else click)
     | Reset \<Rightarrow>
         (ev, b\<lparr>btn_state := Idle, btn_clicks := 0, btn_busy := False, btn_event := 0\<rparr>, []))"

text \<open>Running one button over a sequence of polls \<open>(level, now)\<close>, collecting the hooks.\<close>

fun Button_run :: "(bool \<times> u32) list \<Rightarrow> u32 \<Rightarrow> Button \<Rightarrow> u32 \<times> Button \<times> hook list" where
  "Button_run [] ev b = (ev, b, [])"
| "Button_run (p # ps) ev b =
     (case Button_loop (fst p) (snd p) ev b of
        (ev1, b1, hs1) \<Rightarrow>
          (case Button_run ps ev1 b1 of (ev2, b2, hs2) \<Rightarrow> (ev2, b2, hs1 @ hs2)))"

text \<open>
  Polls as the scenarios below use them: \<open>asserted b t\<close> is a poll at counter value
  \<open>t\<close> that reads the pin of \<open>b\<close> at its active level, \<open>released b t\<close> one that
  reads the other level.
\<close>

definition asserted :: "Button \<Rightarrow> u32 \<Rightarrow> bool \<times> u32" where
  "asserted b t = (btn_high b, t)"

definition released :: "Button \<Rightarrow> u32 \<Rightarrow> bool \<times> u32" where
  "released b t = (\<not> btn_high b, t)"

text \<open>
  One click that is followed by another press, seen from the state \<open>Down\<close>:
  \<open>(held, tr, gap, tp)\<close> are the counter values of the polls that still read the
  pin asserted, of the poll that reads the release, of the polls that read it released,
  and of the poll that reads the next press.
\<close>

type_synonym click = "u32 list \<times> u32 \<times> u32 list \<times> u32"

fun click_polls :: "Button \<Rightarrow> click \<Rightarrow> (bool \<times> u32) list" where
  "click_polls b (held, tr, gap, tp) =
     map (asserted b) held @ [released b tr] @ map (released b) gap @ [asserted b tp]"

text \<open>
  \<open>rapid_clicks c t ks\<close>: in the clicks \<open>ks\<close> after a press registered at \<open>t\<close>, no
  poll of a held button sees the hold time expired (where one is configured), and every
  poll of the released button comes less than \<open>clickUsec\<close> after the poll that read
  the release.  \<open>press_time t ks\<close> is the time at which the last press is registered.
\<close>

fun rapid_clicks :: "Config \<Rightarrow> u32 \<Rightarrow> click list \<Rightarrow> bool" where
  "rapid_clicks c t [] = True"
| "rapid_clicks c t ((held, tr, gap, tp) # ks) =
     ((holdUsec c = 0 \<or> (\<forall>x\<in>set held. x - t < holdUsec c)) \<and>
      (\<forall>g\<in>set gap. g - tr < clickUsec c) \<and>
      rapid_clicks c tp ks)"

fun press_time :: "u32 \<Rightarrow> click list \<Rightarrow> u32" where
  "press_time t [] = t"
| "press_time t ((held, tr, gap, tp) # ks) = press_time tp ks"

text \<open>
  The polls of a press out of \<open>Idle\<close>: the poll at \<open>t0\<close> that reads the pin
  asserted, the polls \<open>bounce\<close> inside the debounce window (at any level), the poll
  at \<open>t1\<close> that reads it asserted after the window, and then the clicks \<open>ks\<close>, each
  ending with the next press.  After them the button is held down.
\<close>

definition press_polls ::
  "Button \<Rightarrow> u32 \<Rightarrow> (bool \<times> u32) list \<Rightarrow> u32 \<Rightarrow> click list \<Rightarrow> (bool \<times> u32) list" where
  "press_polls b t0 bounce t1 ks =
     asserted b t0 # bounce @ [asserted b t1] @ concat (map (click_polls b) ks)"

text \<open>
  A sequence of \<open>length ks + 1\<close> press/release cycles: after \<open>press_polls\<close> the last
  press is polled at \<open>held\<close>, its release is read at \<open>tr\<close>, the released pin is polled
  at \<open>gap\<close> and, for the last time, at \<open>tf\<close>.
\<close>

definition click_sequence ::
  "Button \<Rightarrow> u32 \<Rightarrow> (bool \<times> u32) list \<Rightarrow> u32 \<Rightarrow> click list \<Rightarrow> u32 list \<Rightarrow> u32 \<Rightarrow> u32 list \<Rightarrow> u32
     \<Rightarrow> (bool \<times> u32) list" where
  "click_sequence b t0 bounce t1 ks held tr gap tf =
     press_polls b t0 bounce t1 ks @ map (asserted b) held @ [released b tr] @
     map (released b) gap @ [released b tf]"

text \<open>
  A press that is held: after \<open>press_polls\<close> the held button is polled at \<open>held\<close>,
  at \<open>th\<close> and at \<open>kept\<close>, and its release is read at \<open>tr\<close>.
\<close>

definition hold_sequence ::
  "Button \<Rightarrow> u32 \<Rightarrow> (bool \<times> u32) list \<Rightarrow> u32 \<Rightarrow> click list \<Rightarrow> u32 list \<Rightarrow> u32 \<Rightarrow> u32 list \<Rightarrow> u32
     \<Rightarrow> (bool \<times> u32) list" where
  "hold_sequence b t0 bounce t1 ks held th kept tr =
     press_polls b t0 bounce t1 ks @ map (asserted b) held @ [asserted b th] @
     map (asserted b) kept @ [released b tr]"

text \<open>The count arguments of the \<open>handleClick\<close> calls of a trace, as numbers.\<close>

fun click_counts :: "hook list \<Rightarrow> nat list" where
  "click_counts [] = []"
| "click_counts (HandleClick k # hs) = unat k # click_counts hs"
| "click_counts (h # hs) = click_counts hs"

text \<open>
  A concrete train of \<open>n\<close> clicks with a re-press 1 ms after each release: release
  at \<open>6000 + 2000 i\<close>, next press at \<open>7000 + 2000 i\<close>.
\<close>

definition click_train :: "nat \<Rightarrow> click list" where
  "click_train n = map (\<lambda>i. ([], of_nat (6000 + 2000 * i), [], of_nat (7000 + 2000 * i))) [0..<n]"

section \<open>V2Buttons: the global dispatcher\<close>

text \<open>
  The static struct \<open>_buttons\<close>: the time of the last check, the event sequence
  counter, the list of all registered buttons (the intrusive list, head first) and the
  busy flag, which is initialised to \<open>true\<close>.
\<close>

record Buttons =
  g_usec :: u32
  g_event :: u32
  g_list :: "Button list"
  g_busy :: bool

definition Buttons_init :: Buttons where
  "Buttons_init = \<lparr>g_usec = 0, g_event = 0, g_list = [], g_busy = True\<rparr>"

text \<open>The interrupt handler of every registered pin.\<close>

definition pinInterrupt :: "Buttons \<Rightarrow> Buttons" where
  "pinInterrupt g = g\<lparr>g_busy := True\<rparr>"

text \<open>\<open>Button::begin()\<close> links the button in front of the list (the pin mode and the
  interrupt it configures are hardware settings and have no state here).\<close>

definition Button_begin :: "Button \<Rightarrow> Buttons \<Rightarrow> Buttons" where
  "Button_begin b g = g\<lparr>g_list := b # g_list g\<rparr>"

text \<open>
  One record per call of \<open>Button::loop()\<close> made by the dispatcher: the pin that was
  read, the state the button was in, the button after the call and the hooks called.
\<close>

record Poll =
  poll_pin :: u8
  poll_from :: State
  poll_button :: Button
  poll_hooks :: "hook list"

text \<open>
  The \<open>for\<close> loop of \<open>V2Buttons::loop()\<close> over the list.  \<open>smp i\<close> is what the
  \<open>i\<close>-th button of the list reads: the level of its pin and the microsecond
  counter.  The third component of the result is the busy flag: it was cleared before
  the loop and is set by every button whose \<open>loop()\<close> returns true.
\<close>

fun scan :: "(nat \<Rightarrow> bool \<times> u32) \<Rightarrow> nat \<Rightarrow> u32 \<Rightarrow> Button list \<Rightarrow> u32 \<times> Button list \<times> bool \<times> Poll list" where
  "scan smp i ev [] = (ev, [], False, [])"
| "scan smp i ev (b # bs) =
     (case Button_loop (fst (smp i)) (snd (smp i)) ev b of
        (ev1, b1, hs) \<Rightarrow>
          (case scan smp (Suc i) ev1 bs of
             (ev2, bs2, busy2, log2) \<Rightarrow>
               (ev2, b1 # bs2, btn_busy b1 \<or> busy2,
                \<lparr>poll_pin = btn_pin b, poll_from = btn_state b, poll_button = b1, poll_hooks = hs\<rparr>
                  # log2)))"

text \<open>
  \<open>V2Buttons::loop()\<close>.  \<open>t_check\<close> is the value of \<open>micros()\<close> in the rate-limit
  test, \<open>t_store\<close> the value stored as time of the last check.  The result is the
  new global state and the record of the buttons polled.
\<close>

definition V2Buttons_loop :: "u32 \<Rightarrow> u32 \<Rightarrow> (nat \<Rightarrow> bool \<times> u32) \<Rightarrow> Buttons \<Rightarrow> Buttons \<times> Poll list" where
  "V2Buttons_loop t_check t_store smp g =
     (if \<not> g_busy g then (g, [])
      else if t_check - g_usec g < 1000 then (g, [])
      else
        (case scan smp 0 (g_event g) (g_list g) of
           (ev, bs, busy, polls) \<Rightarrow>
             (g\<lparr>g_usec := t_store, g_event := ev, g_list := bs, g_busy := busy\<rparr>, polls)))"

text \<open>
  What happens to the dispatcher: a pin interrupt, or a call of \<open>loop()\<close> from the
  main loop with the values it reads.  An interrupt during a call is ordered before
  the call when it arrives before \<open>_buttons.busy = false\<close> (every button is polled
  after it) and after the call otherwise (the flag it sets is not cleared again).
\<close>

datatype input = Interrupt | Loop u32 u32 "nat \<Rightarrow> bool \<times> u32"

fun Buttons_step :: "input \<Rightarrow> Buttons \<Rightarrow> Buttons \<times> Poll list" where
  "Buttons_step Interrupt g = (pinInterrupt g, [])"
| "Buttons_step (Loop t_check t_store smp) g = V2Buttons_loop t_check t_store smp g"

fun Buttons_run :: "input list \<Rightarrow> Buttons \<Rightarrow> Buttons \<times> Poll list" where
  "Buttons_run [] g = (g, [])"
| "Buttons_run (i # is) g =
     (case Buttons_step i g of
        (g1, log1) \<Rightarrow> (case Buttons_run is g1 of (g2, log2) \<Rightarrow> (g2, log1 @ log2)))"

text \<open>A call of \<open>loop()\<close> is rate-limited in state \<open>g\<close> when it reads the counter less
  than 1000 microseconds after the last check.\<close>

fun deferred :: "Buttons \<Rightarrow> input \<Rightarrow> bool" where
  "deferred g Interrupt = True"
| "deferred g (Loop t_check t_store smp) = (t_check - g_usec g < 1000)"

text \<open>
  The event ids handed out in a record of polls: a wake-up is a poll that found the
  button in \<open>Idle\<close> and left it in another state; its id is what \<open>getEvent()\<close>
  returns afterwards.
\<close>

definition wake_ups :: "Poll list \<Rightarrow> u32 list" where
  "wake_ups polls =
     map (\<lambda>e. getEvent (poll_button e))
       (filter (\<lambda>e. poll_from e = Idle \<and> btn_state (poll_button e) \<noteq> Idle) polls)"

text \<open>The state after startup: the buttons of the list are as constructed.\<close>

definition fresh :: "Button \<Rightarrow> bool" where
  "fresh b = (b = Button_new (btn_config b) (btn_pin b) (btn_high b) (btn_pushpull b))"

definition Buttons_start :: "Button list \<Rightarrow> Buttons" where
  "Buttons_start bs = foldr Button_begin bs Buttons_init"

section \<open>V2Solenoids: the solenoid power controller\<close>

text \<open>
  The controller computes with C \<open>float\<close>s.  They are a type parameter \<open>'f\<close> here, with
  the operations \<open>+\<close>, \<open>-\<close>, \<open>*\<close>, \<open>/\<close>, \<open><\<close>, \<open>\<le>\<close>, \<open>0\<close> and \<open>1\<close> of the
  syntactic type classes only: no law of arithmetic or of the order is assumed of them,
  so what is proved holds for IEEE arithmetic with its rounding and its NaN as well.
  \<open>a > b\<close> and \<open>a >= b\<close> of the source are \<open>b < a\<close> and \<open>b \<le> a\<close>.  A decimal
  literal \<open>x\<close> other than 0 and 1 is \<open>flt x\<close>, for a conversion \<open>flt\<close> that every
  function takes as its first argument.
\<close>

record 'f Configuration =
  current_max :: 'f
  current_alpha :: 'f
  resistance_min :: 'f
  resistance_max :: 'f
  fade_inSec :: 'f
  fade_outSec :: 'f
  hold_peakUsec :: u32
  hold_fraction :: 'f

datatype PowerState = On | Off

datatype LEDMode = LED_Off | Initialize | Ready | Resistance | Power | LED_ShortCircuit | OverCurrent

datatype ProbeState = Init | Settle | Measure | Sleep

datatype DriverState = DriverIdle | FadeIn | Peak | DriverHold | FadeOut

datatype CoilState = NotConnected | Connected | ShortCircuit

text \<open>The struct \<open>_probe\<close>; \<open>Probe_zero\<close> is the value of \<open>_probe = {}\<close>.\<close>

record Probe =
  pr_state :: ProbeState
  pr_settleUsec :: u32
  pr_port :: u8
  pr_measureUsec :: u32
  pr_sleepUsec :: u32
  pr_cycle :: u8
  pr_ready :: bool

definition Probe_zero :: Probe where
  "Probe_zero =
     \<lparr>pr_state = Init, pr_settleUsec = 0, pr_port = 0, pr_measureUsec = 0, pr_sleepUsec = 0,
      pr_cycle = 0, pr_ready = False\<rparr>"

text \<open>The struct \<open>pulse\<close> of a port; \<open>Pulse_zero\<close> is the value of \<open>pulse = {}\<close>.\<close>

record 'f Pulse =
  startUsec :: u32
  peekUsec :: u32
  durationUsec :: u32
  fadeIn :: bool
  fadeOut :: bool
  duty_target :: 'f
  duty_delta :: 'f

definition Pulse_zero :: "'f::zero Pulse" where
  "Pulse_zero =
     \<lparr>startUsec = 0, peekUsec = 0, durationUsec = 0, fadeIn = False, fadeOut = False,
      duty_target = 0, duty_delta = 0\<rparr>"

text \<open>The struct \<open>measure\<close> of a port.\<close>

record 'f Measurement =
  m_state :: CoilState
  m_resistance :: 'f
  m_voltage :: 'f

record 'f Port =
  p_state :: DriverState
  p_duty :: 'f
  p_measure :: "'f Measurement"
  p_pulse :: "'f Pulse"

text \<open>
  The members of \<open>V2Solenoids<nPorts>\<close>.  The array \<open>_ports\<close> is a list of length
  \<open>nPorts\<close>.
\<close>

record 'f Solenoids =
  s_config :: "'f Configuration"
  s_loopUsec :: u32
  s_powerUsec :: u32
  s_timeoutUsec :: u32
  s_probe :: Probe
  s_current :: 'f
  s_ports :: "'f Port list"

text \<open>
  The calls of the pure virtual functions that act on the hardware, in the order they
  are made.  \<open>setLED(state, port = 0, value = -1)\<close> is recorded with its default
  arguments filled in.
\<close>

datatype 'f effect = SetPower PowerState | SetPWMDuty u8 'f | SetLED LEDMode u8 'f

text \<open>
  What the platform returns during one call of \<open>loop()\<close>: the microsecond counter
  (one value for all the reads of a call: a call is taken to be shorter than the
  counter's resolution), \<open>readCurrent()\<close> and \<open>readResistanceVoltage()\<close>.
\<close>

record 'f Readings =
  rd_micros :: u32
  rd_current :: 'f
  rd_resistanceVoltage :: 'f

definition updateLED ::
  "nat \<Rightarrow> bool \<Rightarrow> 'f::{one,uminus,minus,inverse} Solenoids \<Rightarrow> 'f effect list" where
  "updateLED port force s =
     (if \<not> force \<and> s_timeoutUsec s = 0 then [SetLED LED_Off (of_nat port) (- 1)]
      else
        (case m_state (p_measure (s_ports s ! port)) of
           NotConnected \<Rightarrow> [SetLED LED_Off (of_nat port) (- 1)]
         | Connected \<Rightarrow>
             [SetLED Resistance (of_nat port)
                (1 - (m_resistance (p_measure (s_ports s ! port)) / resistance_max (s_config s)))]
         | ShortCircuit \<Rightarrow> [SetLED LED_ShortCircuit (of_nat port) (- 1)]))"

definition releasePort ::
  "nat \<Rightarrow> 'f::{zero,one,uminus,minus,inverse} Solenoids \<Rightarrow> 'f Solenoids \<times> 'f effect list" where
  "releasePort port s =
     (let s1 = s\<lparr>s_ports := (s_ports s)
                  [port := (s_ports s ! port)\<lparr>p_state := DriverIdle, p_duty := 0, p_pulse := Pulse_zero\<rparr>]\<rparr>
      in (s1, SetPWMDuty (of_nat port) 0 # updateLED port False s1))"

definition fadeOutPort ::
  "(real \<Rightarrow> 'f) \<Rightarrow> nat \<Rightarrow> 'f::{times,inverse,ord} Solenoids \<Rightarrow> bool \<times> 'f Solenoids" where
  "fadeOutPort flt port s =
     (let p = s_ports s ! port in
      if \<not> fadeOut (p_pulse p) then (False, s)
      else if p_duty p < flt 0.01 then (False, s)
      else
        (True,
         s\<lparr>s_ports := (s_ports s)
              [port := p\<lparr>p_pulse := (p_pulse p)
                            \<lparr>duty_delta := p_duty p / (fade_outSec (s_config s) * flt 1000)\<rparr>,
                          p_state := FadeOut\<rparr>]\<rparr>))"

text \<open>The body of the \<open>for\<close> loop of \<open>loop()\<close> over the ports, for the port \<open>i\<close>.\<close>

definition drivePort ::
  "(real \<Rightarrow> 'f) \<Rightarrow> u32 \<Rightarrow> nat \<Rightarrow> 'f::{zero,one,plus,uminus,minus,times,inverse,ord} Solenoids
     \<Rightarrow> 'f Solenoids \<times> 'f effect list" where
  "drivePort flt now i s =
     (let p = s_ports s ! i in
      case p_state p of
        DriverIdle \<Rightarrow> (s, [])
      | FadeIn \<Rightarrow>
          (let d = p_duty p + duty_delta (p_pulse p);
               p1 = p\<lparr>p_duty := d\<rparr>;
               p2 = (if duty_target (p_pulse p1) \<le> d
                     then p1\<lparr>p_pulse := (p_pulse p1)\<lparr>peekUsec := now\<rparr>, p_state := Peak\<rparr>
                     else p1)
           in (s\<lparr>s_ports := (s_ports s)[i := p2]\<rparr>, [SetPWMDuty (of_nat i) d]))
      | Peak \<Rightarrow>
          if hold_peakUsec (s_config s) < getUsecSince now (peekUsec (p_pulse p)) then
            (let d = p_duty p * hold_fraction (s_config s)
             in (s\<lparr>s_ports := (s_ports s)[i := p\<lparr>p_duty := d, p_state := DriverHold\<rparr>]\<rparr>,
                 [SetPWMDuty (of_nat i) d]))
          else if getUsecSince now (startUsec (p_pulse p)) < durationUsec (p_pulse p) then (s, [])
          else
            (let r = fadeOutPort flt i s
             in if fst r then (snd r, []) else releasePort i (snd r))
      | DriverHold \<Rightarrow>
          if getUsecSince now (startUsec (p_pulse p)) < durationUsec (p_pulse p) then (s, [])
          else
            (let r = fadeOutPort flt i s
             in if fst r then (snd r, []) else releasePort i (snd r))
      | FadeOut \<Rightarrow>
          (let d = p_duty p - duty_delta (p_pulse p);
               s1 = s\<lparr>s_ports := (s_ports s)[i := p\<lparr>p_duty := d\<rparr>]\<rparr>
           in if d \<le> 0 then releasePort i s1 else (s1, [SetPWMDuty (of_nat i) d])))"

text \<open>The \<open>for\<close> loop over the ports; the third component is the local \<open>busy\<close>.\<close>

fun drivePorts ::
  "(real \<Rightarrow> 'f) \<Rightarrow> u32 \<Rightarrow> nat list \<Rightarrow> 'f::{zero,one,plus,uminus,minus,times,inverse,ord} Solenoids
     \<Rightarrow> 'f Solenoids \<times> 'f effect list \<times> bool" where
  "drivePorts flt now [] s = (s, [], False)"
| "drivePorts flt now (i # js) s =
     (let busy1 = (p_state (s_ports s ! i) \<noteq> DriverIdle);
          r1 = drivePort flt now i s;
          r2 = drivePorts flt now js (fst r1)
      in (fst r2, snd r1 @ fst (snd r2), busy1 \<or> snd (snd r2)))"

text \<open>The loop \<open>for (i = 0; i < nPorts; i++) releasePort(i)\<close>.\<close>

fun releasePorts ::
  "nat list \<Rightarrow> 'f::{zero,one,uminus,minus,inverse} Solenoids \<Rightarrow> 'f Solenoids \<times> 'f effect list" where
  "releasePorts [] s = (s, [])"
| "releasePorts (i # js) s =
     (let r1 = releasePort i s; r2 = releasePorts js (fst r1) in (fst r2, snd r1 @ snd r2))"

text \<open>\<open>measureCurrent()\<close>, with the value \<open>readCurrent()\<close> returns.\<close>

definition measureCurrent ::
  "'f \<Rightarrow> 'f::{zero,one,plus,minus,times,ord} Solenoids \<Rightarrow> 'f Solenoids" where
  "measureCurrent rc s =
     (if 0 < current_alpha (s_config s)
      then s\<lparr>s_current := s_current s * (1 - current_alpha (s_config s)) + rc * current_alpha (s_config s)\<rparr>
      else s\<lparr>s_current := rc\<rparr>)"

definition measureResistance ::
  "(real \<Rightarrow> 'f) \<Rightarrow> 'f Readings \<Rightarrow> 'f::{zero,one,plus,uminus,minus,times,inverse,ord} Solenoids
     \<Rightarrow> 'f Solenoids \<times> 'f effect list" where
  "measureResistance flt rd s =
     (let port = unat (pr_port (s_probe s));
          p = s_ports s ! port;
          voltage = rd_resistanceVoltage rd;
          v0 = (if m_voltage (p_measure p) < 0 then voltage else m_voltage (p_measure p));
          alpha = flt 0.3;
          v1 = v0 * (1 - alpha) + voltage * alpha;
          r1 = flt 100;
          vIn = flt 3.3;
          vOut = v1;
          r = ((vOut - flt 0.3) * r1) / (vIn - vOut);
          state = (if resistance_max (s_config s) < r then NotConnected
                   else if r < resistance_min (s_config s) then ShortCircuit
                   else Connected);
          changed = (state \<noteq> m_state (p_measure p));
          s1 = s\<lparr>s_ports := (s_ports s)
                    [port := p\<lparr>p_measure := \<lparr>m_state = state, m_resistance = r, m_voltage = v1\<rparr>\<rparr>],
                 s_timeoutUsec := (if changed then rd_micros rd else s_timeoutUsec s)\<rparr>
      in (s1, updateLED port False s1))"

text \<open>
  The end of the \<open>Measure\<close> case: \<open>_probe.port++\<close> and, after the last port, the count
  of full cycles that sets \<open>ready\<close>.  \<open>n\<close> is \<open>nPorts\<close>.
\<close>

definition nextProbePort :: "nat \<Rightarrow> Probe \<Rightarrow> Probe \<times> 'f::{one,uminus} effect list" where
  "nextProbePort n pr =
     (let pr1 = pr\<lparr>pr_port := pr_port pr + 1\<rparr> in
      if unat (pr_port pr1) = n then
        (let pr2 = pr1\<lparr>pr_port := 0\<rparr> in
         if \<not> pr_ready pr2 then
           (let pr3 = pr2\<lparr>pr_cycle := pr_cycle pr2 + 1\<rparr> in
            if 10 < pr_cycle pr3 then (pr3\<lparr>pr_ready := True\<rparr>, [SetLED Ready 0 (- 1)])
            else (pr3, []))
         else (pr2, []))
      else (pr1, []))"

text \<open>
  The \<open>switch (_probe.state)\<close> at the end of \<open>loop()\<close>.  The result is \<open>None\<close> where
  the source indexes \<open>_ports\<close> out of range, which is undefined behaviour.
\<close>

definition probeStep ::
  "(real \<Rightarrow> 'f) \<Rightarrow> 'f Readings \<Rightarrow> 'f::{zero,one,plus,uminus,minus,times,inverse,ord} Solenoids
     \<Rightarrow> ('f Solenoids \<times> 'f effect list) option" where
  "probeStep flt rd s =
     (let now = rd_micros rd; pr = s_probe s in
      case pr_state pr of
        Init \<Rightarrow>
          (let pr1 = pr\<lparr>pr_settleUsec := now, pr_state := Settle\<rparr> in
           if \<not> pr_ready pr1 then Some (s\<lparr>s_probe := pr1\<lparr>pr_cycle := 0\<rparr>\<rparr>, [SetLED Initialize 0 (- 1)])
           else Some (s\<lparr>s_probe := pr1\<rparr>, []))
      | Settle \<Rightarrow>
          if getUsecSince now (pr_settleUsec pr) < 200 * 1000 then Some (s, [])
          else Some (s\<lparr>s_probe := pr\<lparr>pr_measureUsec := now, pr_state := Measure\<rparr>\<rparr>,
                     [SetPWMDuty (pr_port pr) 1])
      | Measure \<Rightarrow>
          if getUsecSince now (pr_measureUsec pr) < 10 * 1000 then Some (s, [])
          else if \<not> unat (pr_port pr) < length (s_ports s) then None
          else
            (let r1 = measureResistance flt rd s;
                 s1 = fst r1;
                 r2 = nextProbePort (length (s_ports s1)) (s_probe s1);
                 pr2 = fst r2;
                 fx = snd r1 @ [SetPWMDuty (pr_port pr) 0] @ snd r2
             in if s_timeoutUsec s1 = 0
                then Some (s1\<lparr>s_probe := pr2\<lparr>pr_sleepUsec := now, pr_state := Sleep\<rparr>\<rparr>, fx)
                else Some (s1\<lparr>s_probe := pr2\<lparr>pr_measureUsec := now\<rparr>\<rparr>,
                           fx @ [SetPWMDuty (pr_port pr2) 1]))
      | Sleep \<Rightarrow>
          if getUsecSince now (pr_sleepUsec pr) < 1000 * 1000 then Some (s, [])
          else Some (s\<lparr>s_probe := pr\<lparr>pr_measureUsec := now, pr_state := Measure\<rparr>\<rparr>,
                     [SetPWMDuty (pr_port pr) 1]))"

text \<open>
  The first part of a tick of \<open>loop()\<close>, from \<open>_loopUsec = getUsec()\<close> to
  \<open>measureCurrent()\<close>: the LED timeout, the \<open>for\<close> loop over the ports and the update
  of the filtered current.  The result is the state, the hardware calls made and the
  local \<open>busy\<close>.
\<close>

definition loopDrive ::
  "(real \<Rightarrow> 'f) \<Rightarrow> 'f Readings \<Rightarrow> 'f::{zero,one,plus,uminus,minus,times,inverse,ord} Solenoids
     \<Rightarrow> 'f Solenoids \<times> 'f effect list \<times> bool" where
  "loopDrive flt rd s =
     (let now = rd_micros rd;
          s1 = s\<lparr>s_loopUsec := now\<rparr>;
          r2 = (if 0 < s_timeoutUsec s1 \<and> 60 * 1000 * 1000 < getUsecSince now (s_timeoutUsec s1)
                then (let s' = s1\<lparr>s_timeoutUsec := 0\<rparr>
                      in (s', concat (map (\<lambda>i. updateLED i False s') [0..<length (s_ports s')])))
                else (s1, []));
          r3 = drivePorts flt now [0..<length (s_ports (fst r2))] (fst r2)
      in (measureCurrent (rd_current rd) (fst r3), snd r2 @ fst (snd r3), snd (snd r3)))"

text \<open>
  \<open>V2Solenoids::loop()\<close>: the rate limit, the tick up to \<open>measureCurrent()\<close>, the
  over-current cutoff, and, when no port is driven and the power has been off for
  200 ms, one step of the resistance probe.
\<close>

definition loop ::
  "(real \<Rightarrow> 'f) \<Rightarrow> 'f Readings \<Rightarrow> 'f::{zero,one,plus,uminus,minus,times,inverse,ord} Solenoids
     \<Rightarrow> ('f Solenoids \<times> 'f effect list) option" where
  "loop flt rd s =
     (let now = rd_micros rd in
      if getUsecSince now (s_loopUsec s) < 1000 then Some (s, [])
      else
        (let r = loopDrive flt rd s;
             s4 = fst r;
             fx4 = fst (snd r);
             busy = snd (snd r)
         in if current_max (s_config s4) < s_current s4 then
              (let r5 = releasePorts [0..<length (s_ports s4)] s4
               in Some ((fst r5)\<lparr>s_probe := Probe_zero\<rparr>, fx4 @ snd r5 @ [SetLED OverCurrent 0 (- 1)]))
            else if busy then Some (s4, fx4)
            else if 0 < s_powerUsec s4 \<and> getUsecSince now (s_powerUsec s4) < 200 * 1000
            then Some (s4, fx4)
            else
              (let r6 = (if 0 < s_powerUsec s4 then (s4\<lparr>s_powerUsec := 0\<rparr>, [SetPower Off])
                         else (s4, []))
               in case probeStep flt rd (fst r6) of
                    None \<Rightarrow> None
                  | Some r7 \<Rightarrow> Some (fst r7, fx4 @ snd r6 @ snd r7))))"

text \<open>
  What the platform returns during one call of \<open>triggerPort()\<close>: the microsecond
  counter, \<open>readVoltage()\<close> and the result of \<open>setPower(PowerState::On)\<close>.
\<close>

record 'f TriggerEnv =
  tr_micros :: u32
  tr_voltage :: 'f
  tr_powered :: bool

text \<open>\<open>wattsToPWMDuty(port, watts)\<close>, with the value \<open>readVoltage()\<close> returns; \<open>sqrtf\<close>
  is the function of the C library.\<close>

definition wattsToPWMDuty ::
  "('f \<Rightarrow> 'f) \<Rightarrow> 'f \<Rightarrow> nat \<Rightarrow> 'f \<Rightarrow> 'f::{times,inverse,ord} Solenoids \<Rightarrow> 'f" where
  "wattsToPWMDuty sqrtf supply port watts s =
     (let voltage = sqrtf (watts * m_resistance (p_measure (s_ports s ! port)));
          voltage1 = (if supply < voltage then supply else voltage)
      in voltage1 / supply)"

text \<open>
  \<open>triggerPort(port, watts, seconds, fadeIn, fadeOut)\<close>.  \<open>to_u32\<close> is the conversion
  of a \<open>float\<close> to \<open>uint32_t\<close>.  The result is \<open>None\<close> where the source indexes
  \<open>_ports\<close> out of range.
\<close>

definition triggerPort ::
  "(real \<Rightarrow> 'f) \<Rightarrow> ('f \<Rightarrow> 'f) \<Rightarrow> ('f \<Rightarrow> u32) \<Rightarrow> 'f TriggerEnv \<Rightarrow> nat \<Rightarrow> 'f \<Rightarrow> 'f \<Rightarrow> bool \<Rightarrow> bool
     \<Rightarrow> 'f::{zero,one,plus,uminus,minus,times,inverse,ord} Solenoids
     \<Rightarrow> ('f Solenoids \<times> 'f effect list) option" where
  "triggerPort flt sqrtf to_u32 env port watts seconds fIn fOut s =
     (if \<not> pr_ready (s_probe s) then Some (s, [])
      else if \<not> port < length (s_ports s) then None
      else if watts \<le> 0 \<or> seconds \<le> 0 then
        (if \<not> fOut then Some (releasePort port s)
         else
           (let r = fadeOutPort flt port s
            in if fst r then Some (snd r, []) else Some (releasePort port (snd r))))
      else if m_state (p_measure (s_ports s ! port)) \<noteq> Connected then Some (s, [])
      else if current_max (s_config s) < s_current s then Some (s, [])
      else if pr_state (s_probe s) \<noteq> Init \<and> \<not> unat (pr_port (s_probe s)) < length (s_ports s)
      then None
      else
        (let now = tr_micros env;
             r1 = (if pr_state (s_probe s) \<noteq> Init
                   then releasePort (unat (pr_port (s_probe s)))
                          (s\<lparr>s_probe := (s_probe s)\<lparr>pr_state := Init\<rparr>\<rparr>)
                   else (s, []));
             s1 = fst r1;
             p = s_ports s1 ! port;
             target = wattsToPWMDuty sqrtf (tr_voltage env) port watts s1;
             p2 = p\<lparr>p_pulse := (p_pulse p)
                       \<lparr>startUsec := now, durationUsec := to_u32 (seconds * flt 1000 * flt 1000),
                        fadeIn := fIn, fadeOut := fOut, duty_target := target\<rparr>\<rparr>;
             s2 = s1\<lparr>s_ports := (s_ports s1)[port := p2]\<rparr>;
             fx2 = (if s_timeoutUsec s2 = 0
                    then concat (map (\<lambda>i. updateLED i True s2) [0..<length (s_ports s2)])
                    else []);
             s3 = s2\<lparr>s_timeoutUsec := now\<rparr>
         in if \<not> tr_powered env then Some (s3, snd r1 @ fx2 @ [SetPower On])
            else if fIn \<and> flt 0.01 < target \<and> p_duty p2 < target then
              (let msec0 = fade_inSec (s_config s) * flt 1000;
                   msec = (if seconds * flt 1000 < msec0 then seconds * flt 1000 else msec0);
                   p4 = p2\<lparr>p_pulse := (p_pulse p2)\<lparr>duty_delta := target / msec\<rparr>, p_state := FadeIn\<rparr>
               in Some (s3\<lparr>s_powerUsec := now, s_ports := (s_ports s3)[port := p4]\<rparr>,
                        snd r1 @ fx2 @ [SetPower On, SetLED Power (of_nat port) watts]))
            else
              (let p4 = p2\<lparr>p_duty := target, p_pulse := (p_pulse p2)\<lparr>peekUsec := now\<rparr>,
                           p_state := Peak\<rparr>
               in Some (s3\<lparr>s_powerUsec := now, s_ports := (s_ports s3)[port := p4]\<rparr>,
                        snd r1 @ fx2 @
                        [SetPower On, SetPWMDuty (of_nat port) target,
                         SetLED Power (of_nat port) watts]))))"

text \<open>\<open>reset()\<close>, called at the counter value \<open>now\<close>.\<close>

definition reset ::
  "u32 \<Rightarrow> 'f::{zero,one,uminus,minus,inverse} Solenoids \<Rightarrow> 'f Solenoids \<times> 'f effect list" where
  "reset now s =
     (let s1 = s\<lparr>s_loopUsec := 0, s_powerUsec := 0, s_timeoutUsec := now, s_probe := Probe_zero,
                 s_current := 0,
                 s_ports := replicate (length (s_ports s))
                   \<lparr>p_state = DriverIdle, p_duty = 0,
                    p_measure = \<lparr>m_state = NotConnected, m_resistance = - 1, m_voltage = - 1\<rparr>,
                    p_pulse = Pulse_zero\<rparr>\<rparr>
      in (s1, SetPower Off #
              concat (map (\<lambda>i. SetPWMDuty (of_nat i) 0 # updateLED i False s1)
                        [0..<length (s_ports s1)])))"

text \<open>
  The states the controller can be in between two calls of its public functions:
  \<open>reset()\<close> has been called, and then \<open>loop()\<close> and \<open>triggerPort()\<close> any number of
  times, with any arguments and any readings.
\<close>

inductive reachable ::
  "(real \<Rightarrow> 'f) \<Rightarrow> ('f \<Rightarrow> 'f) \<Rightarrow> ('f \<Rightarrow> u32)
     \<Rightarrow> 'f::{zero,one,plus,uminus,minus,times,inverse,ord} Solenoids \<Rightarrow> bool"
  for flt :: "real \<Rightarrow> 'f" and sqrtf :: "'f \<Rightarrow> 'f" and to_u32 :: "'f \<Rightarrow> u32" where
  after_reset: "reachable flt sqrtf to_u32 (fst (reset now s))"
| after_loop:
    "reachable flt sqrtf to_u32 s \<Longrightarrow> loop flt rd s = Some (s', fx) \<Longrightarrow>
     reachable flt sqrtf to_u32 s'"
| after_trigger:
    "reachable flt sqrtf to_u32 s \<Longrightarrow>
     triggerPort flt sqrtf to_u32 env port watts seconds fIn fOut s = Some (s', fx) \<Longrightarrow>
     reachable flt sqrtf to_u32 s'"

text \<open>The duty cycle \<open>setPWMDuty\<close> was last called with for a port, in a trace.\<close>

fun last_duty :: "u8 \<Rightarrow> 'f effect list \<Rightarrow> 'f option" where
  "last_duty port [] = None"
| "last_duty port (e # es) =
     (case last_duty port es of
        Some d \<Rightarrow> Some d
      | None \<Rightarrow> (case e of SetPWMDuty q d \<Rightarrow> if q = port then Some d else None | _ \<Rightarrow> None))"

section \<open>V2Device: requests over system exclusive messages\<close>

text \<open>
  The request is parsed by ArduinoJson, a library outside this repository.  A parsed
  document is a value of \<open>json\<close> (numbers are integers here); the functions below are
  the library calls the handler makes: \<open>v[key]\<close>, \<open>isNull()\<close>, the conversion of a
  \<open>JsonObject\<close> to \<open>bool\<close>, the conversions to \<open>const char*\<close> and to the unsigned
  integer types (0 when the value is no number of the range), and the comparisons with
  a string and with a \<open>uint32_t\<close>.
\<close>

datatype json = JNull | JBool bool | JInt int | JString string | JArray "json list"
  | JObject "(string \<times> json) list"

fun member :: "json \<Rightarrow> string \<Rightarrow> json" where
  "member (JObject kvs) k = (case map_of kvs k of Some v \<Rightarrow> v | None \<Rightarrow> JNull)"
| "member v k = JNull"

fun isNull :: "json \<Rightarrow> bool" where
  "isNull JNull = True"
| "isNull v = False"

fun is_object :: "json \<Rightarrow> bool" where
  "is_object (JObject kvs) = True"
| "is_object v = False"

fun as_string :: "json \<Rightarrow> string option" where
  "as_string (JString x) = Some x"
| "as_string v = None"

fun as_unsigned :: "json \<Rightarrow> 'a::len word" where
  "as_unsigned (JInt i) = (if 0 \<le> i \<and> i < 2 ^ LENGTH('a) then word_of_int i else 0)"
| "as_unsigned (JBool b) = (if b then 1 else 0)"
| "as_unsigned v = 0"

fun eq_string :: "json \<Rightarrow> string \<Rightarrow> bool" where
  "eq_string (JString x) y = (x = y)"
| "eq_string v y = False"

text \<open>\<open>v != n\<close> for a \<open>uint32_t n\<close>: false only for a number (or a boolean, read as 0
  or 1) of the same value.\<close>

fun ne_u32 :: "json \<Rightarrow> u32 \<Rightarrow> bool" where
  "ne_u32 (JInt i) n = (i \<noteq> uint n)"
| "ne_u32 (JBool b) n = ((if b then 1 else 0) \<noteq> uint n)"
| "ne_u32 v n = True"

text \<open>
  The members of \<open>V2Device\<close> the handler reads or writes, and
  \<open>bootData.usb.ports.enableAccess\<close>, which survives a reboot.
\<close>

record Device =
  d_boot_id :: u32
  d_usb_name :: "string option"
  d_usb_pid :: u16
  d_configuration_version :: u16
  d_configuration_size :: u16
  d_eeprom_local_magic :: u16
  d_eeprom_local_version :: u16
  d_eeprom_local_size :: u32
  d_eeprom_usb_name :: string
  d_eeprom_usb_vid :: u16
  d_eeprom_usb_pid :: u16
  d_eeprom_usb_ports :: u8
  d_bootData_enableAccess :: bool

text \<open>
  What the handler does to the rest of the system, in the order it does it: the reply
  and the firmware status it sends, the EEPROM and flash operations, the LED, the
  hooks of the subclass, and the reboot.  \<open>Firmware_reboot\<close> and \<open>Firmware_activate\<close>
  reset the system: nothing is executed after them.
\<close>

datatype action =
    SendReply
  | SendFirmwareStatus string
  | EEPROM_erase
  | EEPROM_write
  | Firmware_reboot
  | HandleSwitchChannel u8
  | ImportConfiguration json
  | LED_setBrightness real
  | Firmware_writeBlock u32 "u8 list"
  | Firmware_copyBootloader
  | FlushSystemExclusive
  | Delay nat
  | Firmware_activate

text \<open>
  What the platform provides to the handler: the parser \<open>deserializeJson\<close> (\<open>None\<close>
  when it reports an error), the flash block size, the Base64 decoder and the
  verification of the written image against a hash.
\<close>

record Platform =
  pf_deserializeJson :: "u8 list \<Rightarrow> json option"
  pf_blockSize :: u32
  pf_base64_decode :: "string \<Rightarrow> u8 list"
  pf_verify :: "u32 \<Rightarrow> string \<Rightarrow> bool"

text \<open>\<open>V2Device::writeConfiguration()\<close>.\<close>

definition writeConfiguration :: "Device \<Rightarrow> Device \<times> action list" where
  "writeConfiguration d =
     (d\<lparr>d_eeprom_local_magic := d_usb_pid d,
        d_eeprom_local_version := d_configuration_version d,
        d_eeprom_local_size := ucast (d_configuration_size d)\<rparr>,
      if d_configuration_size d > 0 then [EEPROM_write, EEPROM_write] else [EEPROM_write])"

text \<open>The block \<open>if (jsonUsb) { ... }\<close> of the method \<open>writeConfiguration\<close>.\<close>

definition importUsb :: "json \<Rightarrow> Device \<Rightarrow> Device" where
  "importUsb jsonUsb d =
     (let d1 = (case as_string (member jsonUsb ''name'') of
                  None \<Rightarrow> d
                | Some n \<Rightarrow>
                    if length n > 1 \<and> length n < 32
                    then d\<lparr>d_usb_name := Some n, d_eeprom_usb_name := n\<rparr>
                    else d\<lparr>d_usb_name := None, d_eeprom_usb_name := []\<rparr>);
          d2 = (if \<not> isNull (member jsonUsb ''vid'')
                then d1\<lparr>d_eeprom_usb_vid := as_unsigned (member jsonUsb ''vid'')\<rparr> else d1);
          d3 = (if \<not> isNull (member jsonUsb ''pid'')
                then d2\<lparr>d_eeprom_usb_pid := as_unsigned (member jsonUsb ''pid'')\<rparr> else d2)
      in if \<not> isNull (member jsonUsb ''ports'') \<and> (as_unsigned (member jsonUsb ''ports'') :: u8) \<le> 16
         then d3\<lparr>d_eeprom_usb_ports := as_unsigned (member jsonUsb ''ports'')\<rparr> else d3)"

text \<open>The method \<open>writeFirmware\<close>.\<close>

definition writeFirmware :: "Platform \<Rightarrow> json \<Rightarrow> action list" where
  "writeFirmware pf firmware =
     (if \<not> is_object firmware then []
      else
        (let offset = (as_unsigned (member firmware ''offset'') :: u32) in
         if offset mod pf_blockSize pf \<noteq> 0 then [SendFirmwareStatus ''invalidOffset'']
         else
           (let bytes = pf_base64_decode pf (case as_string (member firmware ''data'') of
                                               None \<Rightarrow> [] | Some x \<Rightarrow> x);
                blockLen = length bytes;
                block = bytes @ replicate (unat (pf_blockSize pf) - blockLen) 0xff;
                written = [LED_setBrightness 0.3, Firmware_writeBlock offset block,
                           LED_setBrightness 0.1]
            in case as_string (member firmware ''hash'') of
                 None \<Rightarrow> written @ [SendFirmwareStatus ''success'']
               | Some hash \<Rightarrow>
                   if pf_verify pf (offset + of_nat blockLen) hash
                   then written @ [Firmware_copyBootloader, SendFirmwareStatus ''success'',
                                   FlushSystemExclusive, LED_setBrightness 1, Delay 100,
                                   Firmware_activate]
                   else written @ [Firmware_copyBootloader, SendFirmwareStatus ''hashMismatch''])))"

text \<open>
  \<open>V2Device::handleSystemExclusive()\<close> from the line
  \<open>JsonObject jsonDevice = json["com.versioduo.device"]\<close> on.
\<close>

definition handleRequest :: "Platform \<Rightarrow> json \<Rightarrow> Device \<Rightarrow> Device \<times> action list" where
  "handleRequest pf doc d =
     (let jsonDevice = member doc ''com.versioduo.device'' in
      if \<not> is_object jsonDevice then (d, [])
      else if \<not> isNull (member jsonDevice ''token'') \<and> ne_u32 (member jsonDevice ''token'') (d_boot_id d)
      then (d, [])
      else if eq_string (member jsonDevice ''method'') ''getAll'' then (d, [SendReply])
      else if eq_string (member jsonDevice ''method'') ''eraseConfiguration''
      then (d, [EEPROM_erase, Firmware_reboot])
      else if eq_string (member jsonDevice ''method'') ''switchChannel'' then
        (d, (if \<not> isNull (member jsonDevice ''channel'')
             then [HandleSwitchChannel (as_unsigned (member jsonDevice ''channel''))] else [])
            @ [SendReply])
      else if eq_string (member jsonDevice ''method'') ''reboot'' then (d, [Firmware_reboot])
      else if eq_string (member jsonDevice ''method'') ''rebootWithPorts''
      then (d\<lparr>d_bootData_enableAccess := True\<rparr>, [Firmware_reboot])
      else if eq_string (member jsonDevice ''method'') ''writeConfiguration'' then
        (let config = member jsonDevice ''configuration'' in
         if is_object config then
           (let d1 = (if is_object (member config ''usb'') then importUsb (member config ''usb'') d
                      else d);
                imported = (if d_configuration_size d1 > 0 then [ImportConfiguration config] else []);
                w = writeConfiguration d1
            in (fst w, imported @ snd w @ [SendReply]))
         else (d, [SendReply]))
      else if eq_string (member jsonDevice ''method'') ''writeFirmware''
      then (d, writeFirmware pf (member jsonDevice ''firmware''))
      else (d, []))"

text \<open>
  \<open>V2Device::handleSystemExclusive(transport, buffer, len)\<close>: the message is the list
  \<open>buffer\<close>, of length \<open>len\<close>.  \<open>0x7b\<close> and \<open>0x7d\<close> are the characters
  \<open>{\<close> and \<open>}\<close>.
\<close>

definition handleSystemExclusive :: "Platform \<Rightarrow> u8 list \<Rightarrow> Device \<Rightarrow> Device \<times> action list" where
  "handleSystemExclusive pf buffer d =
     (let len = length buffer in
      if len < 24 then (d, [])
      else if buffer ! 1 \<noteq> 0x7d then (d, [])
      else if buffer ! 2 \<noteq> 0x7b \<or> buffer ! (len - 2) \<noteq> 0x7d then (d, [])
      else
        (case pf_deserializeJson pf (drop 2 buffer) of
           None \<Rightarrow> (d, [])
         | Some doc \<Rightarrow> handleRequest pf doc d))"

section \<open>Observations and example inputs\<close>

text \<open>The counter and the button after each poll of a run.\<close>

fun Button_states :: "(bool \<times> u32) list \<Rightarrow> u32 \<Rightarrow> Button \<Rightarrow> (u32 \<times> Button) list" where
  "Button_states [] ev b = []"
| "Button_states (p # ps) ev b =
     (case Button_loop (fst p) (snd p) ev b of
        (ev1, b1, hs) \<Rightarrow> (ev1, b1) # Button_states ps ev1 b1)"

text \<open>The \<open>n\<close> consecutive values of the 32-bit counter from \<open>c\<close> on.\<close>

definition ids_from :: "u32 \<Rightarrow> nat \<Rightarrow> u32 list" where
  "ids_from c n = map (\<lambda>k. c + of_nat k) [0..<n]"

text \<open>A port as \<open>releasePort\<close> leaves it.\<close>

definition port_released :: "'f::zero Port \<Rightarrow> bool" where
  "port_released p = (p_state p = DriverIdle \<and> p_duty p = 0 \<and> p_pulse p = Pulse_zero)"

text \<open>Every port is released and the probe is in its initial state, not ready.\<close>

definition shut_down :: "'f::zero Solenoids \<Rightarrow> bool" where
  "shut_down s = ((\<forall>p\<in>set (s_ports s). port_released p) \<and> s_probe s = Probe_zero)"

text \<open>A button on pin 7, active low, with a click window of 200 ms and a hold time of
  500 ms.\<close>

definition example_button :: Button where
  "example_button = Button_new (Some \<lparr>clickUsec = 200000, holdUsec = 500000\<rparr>) 7 False False"

text \<open>
  A controller with two ports and a limit of 3 A, port 0 driven at a duty of 0.8 and
  the probe ready, and the readings of a tick at which the current sensor returns 8 A.
  Floats are reals in this example.
\<close>

definition example_solenoids :: "real Solenoids" where
  "example_solenoids =
     \<lparr>s_config = \<lparr>current_max = 3, current_alpha = 0.5, resistance_min = 6, resistance_max = 60,
                  fade_inSec = 0.35, fade_outSec = 0.35, hold_peakUsec = 100000,
                  hold_fraction = 0.5\<rparr>,
      s_loopUsec = 0, s_powerUsec = 500, s_timeoutUsec = 500,
      s_probe = Probe_zero\<lparr>pr_cycle := 11, pr_ready := True\<rparr>,
      s_current = 2,
      s_ports =
        [\<lparr>p_state = Peak, p_duty = 0.8,
          p_measure = \<lparr>m_state = Connected, m_resistance = 20, m_voltage = 1\<rparr>,
          p_pulse = \<lparr>startUsec = 500, peekUsec = 500, durationUsec = 100000, fadeIn = False,
                     fadeOut = True, duty_target = 0.8, duty_delta = 0\<rparr>\<rparr>,
         \<lparr>p_state = DriverIdle, p_duty = 0,
          p_measure = \<lparr>m_state = NotConnected, m_resistance = 0 - 1, m_voltage = 0 - 1\<rparr>,
          p_pulse = Pulse_zero\<rparr>]\<rparr>"

definition example_readings :: "real Readings" where
  "example_readings = \<lparr>rd_micros = 2000, rd_current = 8, rd_resistanceVoltage = 1\<rparr>"

text \<open>
  A device with boot id \<open>0x1234\<close>, the request \<open>rebootWithPorts\<close> carrying a token, a
  platform whose parser returns a given document, and a message of 25 bytes that passes
  the checks of its framing.
\<close>

definition example_device :: Device where
  "example_device =
     \<lparr>d_boot_id = 0x1234, d_usb_name = None, d_usb_pid = 0xe9a0, d_configuration_version = 1,
      d_configuration_size = 16, d_eeprom_local_magic = 0, d_eeprom_local_version = 0,
      d_eeprom_local_size = 0, d_eeprom_usb_name = [], d_eeprom_usb_vid = 0,
      d_eeprom_usb_pid = 0, d_eeprom_usb_ports = 0, d_bootData_enableAccess = False\<rparr>"

definition example_request :: "int \<Rightarrow> json" where
  "example_request token =
     JObject [(''com.versioduo.device'',
               JObject [(''token'', JInt token), (''method'', JString ''rebootWithPorts'')])]"

definition example_platform :: "json \<Rightarrow> Platform" where
  "example_platform doc =
     \<lparr>pf_deserializeJson = (\<lambda>bytes. Some doc), pf_blockSize = 8192,
      pf_base64_decode = (\<lambda>x. []), pf_verify = (\<lambda>n h. False)\<rparr>"

definition example_message :: "u8 list" where
  "example_message = [0xf0, 0x7d, 0x7b] @ replicate 20 0x20 @ [0x7d, 0xf7]"

section \<open>Single steps of the button state machine\<close>

lemma Button_run_append:
  "Button_run (ps @ qs) ev b =
     (case Button_run ps ev b of
        (ev1, b1, hs1) \<Rightarrow>
          (case Button_run qs ev1 b1 of (ev2, b2, hs2) \<Rightarrow> (ev2, b2, hs1 @ hs2)))"
  by (induction ps arbitrary: ev b) (auto split: prod.splits)

lemma loop_Idle_down:
  "btn_state b = Idle \<Longrightarrow> level = btn_high b \<Longrightarrow>
   Button_loop level now ev b =
     (ev + 1, b\<lparr>btn_state := WaitDown, btn_usec := now, btn_event := ev, btn_busy := True\<rparr>, [])"
  by (simp add: Button_loop_def)

lemma loop_WaitDown_wait:
  "btn_state b = WaitDown \<Longrightarrow> now - btn_usec b < 5000 \<Longrightarrow> Button_loop level now ev b = (ev, b, [])"
  by (simp add: Button_loop_def)

lemma loop_WaitDown_up:
  "btn_state b = WaitDown \<Longrightarrow> 5000 \<le> now - btn_usec b \<Longrightarrow> level \<noteq> btn_high b \<Longrightarrow>
   Button_loop level now ev b = (ev, b\<lparr>btn_state := Reset\<rparr>, [])"
  by (simp add: Button_loop_def not_less)

lemma loop_WaitDown_down:
  "btn_state b = WaitDown \<Longrightarrow> 5000 \<le> now - btn_usec b \<Longrightarrow> level = btn_high b \<Longrightarrow>
   Button_loop level now ev b = (ev, b\<lparr>btn_state := Down\<rparr>, [HandleDown])"
  by (simp add: Button_loop_def not_less)

lemma loop_Reset:
  "btn_state b = Reset \<Longrightarrow>
   Button_loop level now ev b =
     (ev, b\<lparr>btn_state := Idle, btn_clicks := 0, btn_busy := False, btn_event := 0\<rparr>, [])"
  by (simp add: Button_loop_def)

lemma loop_Down_released:
  "btn_state b = Down \<Longrightarrow> level \<noteq> btn_high b \<Longrightarrow>
   Button_loop level now ev b = (ev, b\<lparr>btn_state := Up, btn_usec := now, btn_busy := True\<rparr>, [])"
  by (simp add: Button_loop_def)

lemma loop_Down_nohold:
  "btn_state b = Down \<Longrightarrow> level = btn_high b \<Longrightarrow> btn_config b = Some c \<Longrightarrow> holdUsec c = 0 \<Longrightarrow>
   Button_loop level now ev b = (ev, b\<lparr>btn_busy := False\<rparr>, [])"
  by (simp add: Button_loop_def)

lemma loop_Down_wait:
  "btn_state b = Down \<Longrightarrow> level = btn_high b \<Longrightarrow> btn_config b = Some c \<Longrightarrow> holdUsec c \<noteq> 0 \<Longrightarrow>
   now - btn_usec b < holdUsec c \<Longrightarrow>
   Button_loop level now ev b = (ev, b, [])"
  by (simp add: Button_loop_def)

lemma loop_Down_hold:
  "btn_state b = Down \<Longrightarrow> level = btn_high b \<Longrightarrow> btn_config b = Some c \<Longrightarrow> holdUsec c \<noteq> 0 \<Longrightarrow>
   holdUsec c \<le> now - btn_usec b \<Longrightarrow>
   Button_loop level now ev b = (ev, b\<lparr>btn_state := Hold\<rparr>, [HandleHold (btn_clicks b)])"
  by (simp add: Button_loop_def not_less)

lemma loop_Hold_held:
  "btn_state b = Hold \<Longrightarrow> level = btn_high b \<Longrightarrow>
   Button_loop level now ev b = (ev, b\<lparr>btn_busy := False\<rparr>, [])"
  by (simp add: Button_loop_def)

lemma loop_Hold_released:
  "btn_state b = Hold \<Longrightarrow> level \<noteq> btn_high b \<Longrightarrow>
   Button_loop level now ev b = (ev, b\<lparr>btn_state := Reset, btn_busy := True\<rparr>, [HandleRelease, HandleUp])"
  by (simp add: Button_loop_def)

lemma loop_Up_repress:
  "btn_state b = Up \<Longrightarrow> level = btn_high b \<Longrightarrow> btn_config b = Some c \<Longrightarrow> clickUsec c \<noteq> 0 \<Longrightarrow>
   Button_loop level now ev b =
     (ev, b\<lparr>btn_state := Down, btn_clicks := btn_clicks b + 1, btn_usec := now\<rparr>, [])"
  by (simp add: Button_loop_def word_greater_zero_iff)

lemma loop_Up_wait:
  "btn_state b = Up \<Longrightarrow> level \<noteq> btn_high b \<Longrightarrow> btn_config b = Some c \<Longrightarrow> clickUsec c \<noteq> 0 \<Longrightarrow>
   now - btn_usec b < clickUsec c \<Longrightarrow>
   Button_loop level now ev b = (ev, b, [])"
  by (simp add: Button_loop_def word_greater_zero_iff)

lemma loop_Up_click:
  "btn_state b = Up \<Longrightarrow> level \<noteq> btn_high b \<Longrightarrow> btn_config b = Some c \<Longrightarrow>
   clickUsec c \<le> now - btn_usec b \<Longrightarrow>
   Button_loop level now ev b = (ev, b\<lparr>btn_state := Reset\<rparr>, [HandleClick (btn_clicks b), HandleUp])"
  using leD by (auto simp: Button_loop_def Let_def)

section \<open>Runs of the button state machine\<close>

lemma asserted_simps [simp]: "fst (asserted b t) = btn_high b" "snd (asserted b t) = t"
  by (simp_all add: asserted_def)

lemma released_simps [simp]: "fst (released b t) = (\<not> btn_high b)" "snd (released b t) = t"
  by (simp_all add: released_def)

lemma run_seq:
  "Button_run ps ev b = (ev1, b1, hs1) \<Longrightarrow> Button_run qs ev1 b1 = (ev2, b2, hs2) \<Longrightarrow>
   Button_run (ps @ qs) ev b = (ev2, b2, hs1 @ hs2)"
  by (simp add: Button_run_append)

lemma run_single:
  "Button_loop (fst p) (snd p) ev b = r \<Longrightarrow> Button_run [p] ev b = r"
  by (auto split: prod.splits)

lemma run_WaitDown_wait:
  "btn_state b = WaitDown \<Longrightarrow> \<forall>p\<in>set ps. snd p - btn_usec b < 5000 \<Longrightarrow>
   Button_run ps ev b = (ev, b, [])"
  by (induction ps) (simp_all add: loop_WaitDown_wait)

lemma run_wake:
  assumes "btn_state b = Idle" "\<forall>p\<in>set bounce. snd p - t0 < 5000"
  shows "Button_run (asserted b t0 # bounce) ev b =
     (ev + 1, b\<lparr>btn_state := WaitDown, btn_usec := t0, btn_event := ev, btn_busy := True\<rparr>, [])"
  using assms by (simp add: loop_Idle_down run_WaitDown_wait)

lemma run_press:
  assumes "btn_state b = Idle" "\<forall>p\<in>set bounce. snd p - t0 < 5000" "5000 \<le> t1 - t0"
  shows "Button_run (asserted b t0 # bounce @ [asserted b t1]) ev b =
     (ev + 1, b\<lparr>btn_state := Down, btn_usec := t0, btn_event := ev, btn_busy := True\<rparr>, [HandleDown])"
proof -
  have "Button_run ((asserted b t0 # bounce) @ [asserted b t1]) ev b =
     (ev + 1, b\<lparr>btn_state := Down, btn_usec := t0, btn_event := ev, btn_busy := True\<rparr>, [HandleDown])"
    unfolding Button_run_append run_wake[OF assms(1,2)]
    using assms(3) by (simp add: loop_WaitDown_down)
  then show ?thesis by simp
qed

lemma run_Down_held:
  assumes "btn_state b = Down" "btn_config b = Some c" "btn_high b = btn_high b0"
    and "holdUsec c = 0 \<or> (\<forall>x\<in>set held. x - btn_usec b < holdUsec c)"
  shows "\<exists>bz. Button_run (map (asserted b0) held) ev b = (ev, b\<lparr>btn_busy := bz\<rparr>, [])"
  using assms
proof (induction held arbitrary: b)
  case Nil
  have "b = b\<lparr>btn_busy := btn_busy b\<rparr>" by simp
  then show ?case by (intro exI[of _ "btn_busy b"]) simp
next
  case (Cons x xs)
  show ?case
  proof (cases "holdUsec c = 0")
    case True
    let ?b1 = "b\<lparr>btn_busy := False\<rparr>"
    have step: "Button_loop (btn_high b0) x ev b = (ev, ?b1, [])"
      using Cons.prems True by (simp add: loop_Down_nohold)
    have "\<exists>bz. Button_run (map (asserted b0) xs) ev ?b1 = (ev, ?b1\<lparr>btn_busy := bz\<rparr>, [])"
      using Cons.prems True by (intro Cons.IH) simp_all
    then show ?thesis using step by auto
  next
    case False
    have step: "Button_loop (btn_high b0) x ev b = (ev, b, [])"
      using Cons.prems False by (simp add: loop_Down_wait)
    have "\<exists>bz. Button_run (map (asserted b0) xs) ev b = (ev, b\<lparr>btn_busy := bz\<rparr>, [])"
      using Cons.prems False by (intro Cons.IH) simp_all
    then show ?thesis using step by auto
  qed
qed

lemma run_Hold_held:
  assumes "btn_state b = Hold" "btn_high b = btn_high b0"
  shows "\<exists>bz. Button_run (map (asserted b0) kept) ev b = (ev, b\<lparr>btn_busy := bz\<rparr>, [])"
  using assms
proof (induction kept arbitrary: b)
  case Nil
  have "b = b\<lparr>btn_busy := btn_busy b\<rparr>" by simp
  then show ?case by (intro exI[of _ "btn_busy b"]) simp
next
  case (Cons k kept)
  let ?b1 = "b\<lparr>btn_busy := False\<rparr>"
  have step: "Button_loop (btn_high b0) k ev b = (ev, ?b1, [])"
    using Cons.prems by (simp add: loop_Hold_held)
  have "\<exists>bz. Button_run (map (asserted b0) kept) ev ?b1 = (ev, ?b1\<lparr>btn_busy := bz\<rparr>, [])"
    using Cons.prems by (intro Cons.IH) simp_all
  then show ?case using step by auto
qed

lemma run_Down_release:
  assumes "btn_state b = Down" "btn_config b = Some c" "btn_high b = btn_high b0"
    and "holdUsec c = 0 \<or> (\<forall>x\<in>set held. x - btn_usec b < holdUsec c)"
  shows "Button_run (map (asserted b0) held @ [released b0 tr]) ev b =
           (ev, b\<lparr>btn_state := Up, btn_usec := tr, btn_busy := True\<rparr>, [])"
proof -
  obtain bz where 1: "Button_run (map (asserted b0) held) ev b = (ev, b\<lparr>btn_busy := bz\<rparr>, [])"
    using run_Down_held[OF assms] by blast
  have 2: "Button_run [released b0 tr] ev (b\<lparr>btn_busy := bz\<rparr>) =
      (ev, b\<lparr>btn_busy := bz\<rparr>\<lparr>btn_state := Up, btn_usec := tr, btn_busy := True\<rparr>, [])"
    using assms(1,3) by (simp add: loop_Down_released)
  show ?thesis using run_seq[OF 1 2] by simp
qed

lemma run_Up_gap:
  assumes "btn_state b = Up" "btn_config b = Some c" "clickUsec c \<noteq> 0" "btn_high b = btn_high b0"
    and "\<forall>g\<in>set gap. g - btn_usec b < clickUsec c"
  shows "Button_run (map (released b0) gap) ev b = (ev, b, [])"
  using assms by (induction gap) (simp_all add: loop_Up_wait)

lemma run_click:
  assumes "btn_state b = Down" "btn_config b = Some c" "clickUsec c \<noteq> 0" "btn_high b = btn_high b0"
    and "holdUsec c = 0 \<or> (\<forall>x\<in>set held. x - btn_usec b < holdUsec c)"
    and "\<forall>g\<in>set gap. g - tr < clickUsec c"
  shows "Button_run (click_polls b0 (held, tr, gap, tp)) ev b =
           (ev, b\<lparr>btn_clicks := btn_clicks b + 1, btn_usec := tp, btn_busy := True\<rparr>, [])"
proof -
  let ?u = "b\<lparr>btn_state := Up, btn_usec := tr, btn_busy := True\<rparr>"
  have 1: "Button_run (map (asserted b0) held @ [released b0 tr]) ev b = (ev, ?u, [])"
    by (rule run_Down_release[OF assms(1,2,4,5)])
  have 2: "Button_run (map (released b0) gap) ev ?u = (ev, ?u, [])"
    using assms by (intro run_Up_gap[where c = c]) simp_all
  have 3: "Button_run [asserted b0 tp] ev ?u =
      (ev, ?u\<lparr>btn_state := Down, btn_clicks := btn_clicks ?u + 1, btn_usec := tp\<rparr>, [])"
    using assms by (simp add: loop_Up_repress[where c = c])
  have "Button_run ((map (asserted b0) held @ [released b0 tr]) @ map (released b0) gap @ [asserted b0 tp]) ev b =
           (ev, ?u\<lparr>btn_state := Down, btn_clicks := btn_clicks ?u + 1, btn_usec := tp\<rparr>, [] @ [] @ [])"
    by (intro run_seq[OF 1] run_seq[OF 2] 3)
  then show ?thesis using assms(1) by simp
qed

lemma run_clicks:
  assumes "btn_state b = Down" "btn_config b = Some c" "ks = [] \<or> clickUsec c \<noteq> 0"
    and "btn_high b = btn_high b0"
    and "rapid_clicks c (btn_usec b) ks"
  shows "\<exists>bz. Button_run (concat (map (click_polls b0) ks)) ev b =
           (ev, b\<lparr>btn_clicks := btn_clicks b + of_nat (length ks),
                  btn_usec := press_time (btn_usec b) ks, btn_busy := bz\<rparr>, [])"
  using assms
proof (induction ks arbitrary: b)
  case Nil
  have "b = b\<lparr>btn_clicks := btn_clicks b, btn_usec := btn_usec b, btn_busy := btn_busy b\<rparr>" by simp
  then show ?case by (intro exI[of _ "btn_busy b"]) simp
next
  case (Cons k ks)
  obtain held tr gap tp where k: "k = (held, tr, gap, tp)" by (cases k) auto
  let ?b1 = "b\<lparr>btn_clicks := btn_clicks b + 1, btn_usec := tp, btn_busy := True\<rparr>"
  have c0: "clickUsec c \<noteq> 0" using Cons.prems(3) by simp
  have 1: "Button_run (click_polls b0 k) ev b = (ev, ?b1, [])"
    unfolding k using Cons.prems c0 by (intro run_click[where c = c]) (simp_all add: k)
  obtain bz where 2: "Button_run (concat (map (click_polls b0) ks)) ev ?b1 =
           (ev, ?b1\<lparr>btn_clicks := btn_clicks ?b1 + of_nat (length ks),
                  btn_usec := press_time (btn_usec ?b1) ks, btn_busy := bz\<rparr>, [])"
    using Cons.IH[of ?b1] Cons.prems c0 by (auto simp: k)
  have "Button_run (click_polls b0 k @ concat (map (click_polls b0) ks)) ev b =
      (ev, ?b1\<lparr>btn_clicks := btn_clicks ?b1 + of_nat (length ks),
                  btn_usec := press_time (btn_usec ?b1) ks, btn_busy := bz\<rparr>, [] @ [])"
    by (rule run_seq[OF 1 2])
  then have "Button_run (concat (map (click_polls b0) (k # ks))) ev b =
      (ev, b\<lparr>btn_clicks := btn_clicks b + of_nat (length (k # ks)),
                  btn_usec := press_time (btn_usec b) (k # ks), btn_busy := bz\<rparr>, [])"
    by (simp add: k add.assoc add.commute)
  then show ?case by blast
qed

lemma run_presses:
  assumes "btn_state b = Idle" "btn_clicks b = 0" "btn_config b = Some c"
    and "ks = [] \<or> clickUsec c \<noteq> 0"
    and "\<forall>p\<in>set bounce. snd p - t0 < 5000" "5000 \<le> t1 - t0"
    and "rapid_clicks c t0 ks"
  shows "\<exists>bz. Button_run (press_polls b t0 bounce t1 ks) ev b =
           (ev + 1, b\<lparr>btn_state := Down, btn_clicks := of_nat (length ks),
                      btn_usec := press_time t0 ks, btn_event := ev, btn_busy := bz\<rparr>, [HandleDown])"
proof -
  let ?d = "b\<lparr>btn_state := Down, btn_usec := t0, btn_event := ev, btn_busy := True\<rparr>"
  have 1: "Button_run (asserted b t0 # bounce @ [asserted b t1]) ev b = (ev + 1, ?d, [HandleDown])"
    by (rule run_press[OF assms(1,5,6)])
  obtain bz where 2: "Button_run (concat (map (click_polls b) ks)) (ev + 1) ?d =
           (ev + 1, ?d\<lparr>btn_clicks := btn_clicks ?d + of_nat (length ks),
                  btn_usec := press_time (btn_usec ?d) ks, btn_busy := bz\<rparr>, [])"
    using run_clicks[of ?d c ks b "ev + 1"] assms(3,4,7) by auto
  have "Button_run ((asserted b t0 # bounce @ [asserted b t1]) @ concat (map (click_polls b) ks)) ev b =
     (ev + 1, ?d\<lparr>btn_clicks := btn_clicks ?d + of_nat (length ks),
                  btn_usec := press_time (btn_usec ?d) ks, btn_busy := bz\<rparr>, [HandleDown] @ [])"
    by (rule run_seq[OF 1 2])
  then have "Button_run (press_polls b t0 bounce t1 ks) ev b =
           (ev + 1, b\<lparr>btn_state := Down, btn_clicks := of_nat (length ks),
                      btn_usec := press_time t0 ks, btn_event := ev, btn_busy := bz\<rparr>, [HandleDown])"
    using assms(2) by (simp add: press_polls_def)
  then show ?thesis by blast
qed

lemma rapid_clicks_no_polls:
  "\<forall>k\<in>set ks. fst k = [] \<and> fst (snd (snd k)) = [] \<Longrightarrow> rapid_clicks c t ks"
  by (induction ks arbitrary: t) auto

lemma run_click_sequence:
  assumes "btn_state b = Idle" "btn_clicks b = 0" "btn_config b = Some c" "clickUsec c \<noteq> 0"
    and "\<forall>p\<in>set bounce. snd p - t0 < 5000" "5000 \<le> t1 - t0"
    and "rapid_clicks c t0 ks"
    and "holdUsec c = 0 \<or> (\<forall>x\<in>set held. x - press_time t0 ks < holdUsec c)"
    and "\<forall>g\<in>set gap. g - tr < clickUsec c"
    and "clickUsec c \<le> tf - tr"
  shows "Button_run (click_sequence b t0 bounce t1 ks held tr gap tf) ev b =
      (ev + 1,
       b\<lparr>btn_state := Reset, btn_clicks := of_nat (length ks), btn_usec := tr,
         btn_event := ev, btn_busy := True\<rparr>,
       [HandleDown, HandleClick (of_nat (length ks)), HandleUp])"
proof -
  obtain bz where 1: "Button_run (press_polls b t0 bounce t1 ks) ev b =
           (ev + 1, b\<lparr>btn_state := Down, btn_clicks := of_nat (length ks),
                      btn_usec := press_time t0 ks, btn_event := ev, btn_busy := bz\<rparr>, [HandleDown])"
    (is "_ = (_, ?d, _)")
    using run_presses[OF assms(1,2,3) _ assms(5,6,7)] assms(4) by blast
  let ?u = "?d\<lparr>btn_state := Up, btn_usec := tr, btn_busy := True\<rparr>"
  have 2: "Button_run (map (asserted b) held @ [released b tr]) (ev + 1) ?d = (ev + 1, ?u, [])"
    using assms(3,8) by (intro run_Down_release[where c = c]) simp_all
  have 3: "Button_run (map (released b) gap) (ev + 1) ?u = (ev + 1, ?u, [])"
    using assms(3,4,9) by (intro run_Up_gap[where c = c]) simp_all
  have 4: "Button_run [released b tf] (ev + 1) ?u =
      (ev + 1, ?u\<lparr>btn_state := Reset\<rparr>, [HandleClick (btn_clicks ?u), HandleUp])"
    using assms(3,10) by (simp add: loop_Up_click[where c = c])
  have "Button_run (press_polls b t0 bounce t1 ks @ (map (asserted b) held @ [released b tr]) @
          map (released b) gap @ [released b tf]) ev b =
      (ev + 1, ?u\<lparr>btn_state := Reset\<rparr>,
       [HandleDown] @ [] @ [] @ [HandleClick (btn_clicks ?u), HandleUp])"
    by (intro run_seq[OF 1] run_seq[OF 2] run_seq[OF 3] 4)
  then show ?thesis by (simp add: click_sequence_def)
qed

section \<open>Debounce\<close>

text \<open>
  Claim C2.  A press shorter than the 5 ms debounce window never produces a Down or a
  Click event.  The button is in \<open>Idle\<close>; a poll at \<open>t0\<close> reads its pin asserted, the
  polls \<open>bounce\<close> come less than 5000 microseconds later (whatever they read), and the
  first poll after the window, at \<open>t1\<close>, reads the pin released.  Then the machine is in
  \<open>Reset\<close> and no hook has been called, and one more poll, whatever it reads, takes it
  to \<open>Idle\<close> with no hook called either.
\<close>

theorem debounce_short_press_no_event:
  assumes "btn_state b = Idle"
    and "\<forall>p\<in>set bounce. snd p - t0 < 5000"
    and "5000 \<le> t1 - t0"
  shows "Button_run (asserted b t0 # bounce @ [released b t1]) ev b =
           (ev + 1, b\<lparr>btn_state := Reset, btn_usec := t0, btn_event := ev, btn_busy := True\<rparr>, [])
       \<and> Button_run (asserted b t0 # bounce @ [released b t1, p]) ev b =
           (ev + 1,
            b\<lparr>btn_state := Idle, btn_clicks := 0, btn_usec := t0, btn_event := 0, btn_busy := False\<rparr>,
            [])"
proof -
  let ?w = "b\<lparr>btn_state := WaitDown, btn_usec := t0, btn_event := ev, btn_busy := True\<rparr>"
  have 1: "Button_run (asserted b t0 # bounce) ev b = (ev + 1, ?w, [])"
    by (rule run_wake[OF assms(1,2)])
  have 2: "Button_run [released b t1] (ev + 1) ?w = (ev + 1, ?w\<lparr>btn_state := Reset\<rparr>, [])"
    using assms(3) by (simp add: loop_WaitDown_up)
  have 3: "Button_run [released b t1, p] (ev + 1) ?w =
      (ev + 1, ?w\<lparr>btn_state := Idle, btn_clicks := 0, btn_busy := False, btn_event := 0\<rparr>, [])"
    using assms(3) by (simp add: loop_WaitDown_up loop_Reset)
  show ?thesis using run_seq[OF 1 2] run_seq[OF 1 3] by simp
qed

theorem debounce_short_press_no_event_witness:
  "Button_run [(True, 4294967040), (False, 4294967100), (True, 500), (False, 6000)] 0
     (Button_new None 7 True False) =
   (1, (Button_new None 7 True False)\<lparr>btn_state := Reset, btn_usec := 4294967040, btn_busy := True\<rparr>, [])"
  using debounce_short_press_no_event[of "Button_new None 7 True False"
      "[(False, 4294967100), (True, 500)]" 4294967040 6000 0]
  by (simp add: Button_new_def asserted_def released_def)

section \<open>Long press\<close>

text \<open>
  Claim C3.  For a button with a nonzero \<open>holdUsec\<close>, a press that stays asserted for
  at least \<open>holdUsec\<close> produces exactly one \<open>handleHold\<close> call in its event sequence
  and no \<open>handleClick\<close>; the release from \<open>Hold\<close> calls \<open>handleRelease\<close> and
  \<open>handleUp\<close> and moves the machine to \<open>Reset\<close>.  The sequence starts in \<open>Idle\<close>
  with a debounced press, may contain clicks \<open>ks\<close> before the long press (then
  \<open>clickUsec\<close> is nonzero too), polls the held button at \<open>held\<close> before the hold time
  is over, at \<open>th\<close> when \<open>holdUsec\<close> or more has passed since the press was
  registered, at \<open>kept\<close> while it stays down, and reads the release at \<open>tr\<close>.  The
  hooks called are exactly \<open>handleDown\<close>, \<open>handleHold\<close> with the number of clicks
  before, \<open>handleRelease\<close> and \<open>handleUp\<close>.
\<close>

theorem hold_one_event:
  assumes "btn_state b = Idle" "btn_clicks b = 0" "btn_config b = Some c" "holdUsec c \<noteq> 0"
    and "ks = [] \<or> clickUsec c \<noteq> 0"
    and "\<forall>p\<in>set bounce. snd p - t0 < 5000" "5000 \<le> t1 - t0"
    and "rapid_clicks c t0 ks"
    and "\<forall>x\<in>set held. x - press_time t0 ks < holdUsec c"
    and "holdUsec c \<le> th - press_time t0 ks"
  shows "Button_run (hold_sequence b t0 bounce t1 ks held th kept tr) ev b =
      (ev + 1,
       b\<lparr>btn_state := Reset, btn_clicks := of_nat (length ks), btn_usec := press_time t0 ks,
         btn_event := ev, btn_busy := True\<rparr>,
       [HandleDown, HandleHold (of_nat (length ks)), HandleRelease, HandleUp])"
proof -
  obtain bz where 1: "Button_run (press_polls b t0 bounce t1 ks) ev b =
           (ev + 1, b\<lparr>btn_state := Down, btn_clicks := of_nat (length ks),
                      btn_usec := press_time t0 ks, btn_event := ev, btn_busy := bz\<rparr>, [HandleDown])"
    (is "_ = (_, ?d, _)")
    using run_presses[OF assms(1,2,3,5,6,7,8)] by blast
  obtain bz2 where 2: "Button_run (map (asserted b) held) (ev + 1) ?d = (ev + 1, ?d\<lparr>btn_busy := bz2\<rparr>, [])"
    using run_Down_held[of ?d c b held "ev + 1"] assms(3,9) by auto
  let ?d2 = "?d\<lparr>btn_busy := bz2\<rparr>"
  let ?h = "?d2\<lparr>btn_state := Hold\<rparr>"
  have 3: "Button_run [asserted b th] (ev + 1) ?d2 = (ev + 1, ?h, [HandleHold (btn_clicks ?d2)])"
    using assms(3,4,10) by (simp add: loop_Down_hold[where c = c])
  obtain bz3 where 4: "Button_run (map (asserted b) kept) (ev + 1) ?h = (ev + 1, ?h\<lparr>btn_busy := bz3\<rparr>, [])"
    using run_Hold_held[of ?h b kept "ev + 1"] by auto
  let ?h2 = "?h\<lparr>btn_busy := bz3\<rparr>"
  have 5: "Button_run [released b tr] (ev + 1) ?h2 =
      (ev + 1, ?h2\<lparr>btn_state := Reset, btn_busy := True\<rparr>, [HandleRelease, HandleUp])"
    by (simp add: loop_Hold_released)
  have "Button_run (press_polls b t0 bounce t1 ks @ map (asserted b) held @ [asserted b th] @
          map (asserted b) kept @ [released b tr]) ev b =
      (ev + 1, ?h2\<lparr>btn_state := Reset, btn_busy := True\<rparr>,
       [HandleDown] @ [] @ [HandleHold (btn_clicks ?d2)] @ [] @ [HandleRelease, HandleUp])"
    by (intro run_seq[OF 1] run_seq[OF 2] run_seq[OF 3] run_seq[OF 4] 5)
  then show ?thesis by (simp add: hold_sequence_def)
qed

theorem hold_one_event_witness:
  "Button_run
     (hold_sequence example_button 1000 [(True, 2000)] 6500 [([10000], 50000, [60000], 120000)]
        [200000] 620000 [700000] 900000) 0 example_button =
   (1, example_button\<lparr>btn_state := Reset, btn_clicks := 1, btn_usec := 120000, btn_busy := True\<rparr>,
    [HandleDown, HandleHold 1, HandleRelease, HandleUp])"
  using hold_one_event[where b = example_button
      and c = "\<lparr>clickUsec = 200000, holdUsec = 500000\<rparr>"
      and bounce = "[(True, 2000)]" and ?t0.0 = 1000 and ?t1.0 = 6500
      and ks = "[([10000], 50000, [60000], 120000)]" and held = "[200000]" and th = 620000
      and kept = "[700000]" and tr = 900000 and ev = 0]
  by (simp add: example_button_def Button_new_def)

section \<open>Counting clicks\<close>

text \<open>
  Claim C4, as stated: \<open>N\<close> press/release cycles, each re-press within \<open>clickUsec\<close>
  of the release before it, produce one \<open>handleClick\<close> call with the count \<open>N - 1\<close>.
  The click counter \<open>_clicks\<close> and the argument of \<open>handleClick\<close> are \<open>uint8_t\<close>:
  with \<open>N = 257\<close> cycles (one debounced press and 256 further clicks, 2 ms apart, on a
  button with a click window of 200 ms and no hold time) the count passed is 0, not 256.
\<close>

theorem click_count_is_N_minus_1_counterexample:
  "click_counts (snd (snd (Button_run
      (click_sequence (Button_new (Some \<lparr>clickUsec = 200000, holdUsec = 0\<rparr>) 7 False False)
         0 [] 5000 (click_train 256) [] 518000 [] 718000)
      0 (Button_new (Some \<lparr>clickUsec = 200000, holdUsec = 0\<rparr>) 7 False False)))) = [0]
   \<and> length (click_train 256) + 1 = 257"
proof -
  let ?b = "Button_new (Some \<lparr>clickUsec = 200000, holdUsec = 0\<rparr>) 7 False False"
  have r: "rapid_clicks \<lparr>clickUsec = 200000, holdUsec = 0\<rparr> 0 (click_train 256)"
    by (rule rapid_clicks_no_polls) (auto simp: click_train_def)
  have l: "length (click_train 256) = 256" by (simp add: click_train_def)
  have "Button_run (click_sequence ?b 0 [] 5000 (click_train 256) [] 518000 [] 718000) 0 ?b =
      (0 + 1,
       ?b\<lparr>btn_state := Reset, btn_clicks := of_nat (length (click_train 256)), btn_usec := 518000,
         btn_event := 0, btn_busy := True\<rparr>,
       [HandleDown, HandleClick (of_nat (length (click_train 256))), HandleUp])"
    using r by (intro run_click_sequence[where c = "\<lparr>clickUsec = 200000, holdUsec = 0\<rparr>"])
      (simp_all add: Button_new_def)
  then show ?thesis by (simp add: l)
qed

text \<open>
  Claim C4, amended.  For a button with a nonzero \<open>clickUsec\<close>, a sequence of
  \<open>N = length ks + 1\<close> press/release cycles out of \<open>Idle\<close>, in which the first press
  outlasts the debounce window, no poll finds a press held for a configured
  \<open>holdUsec\<close>, every poll of the released pin between two presses comes less than
  \<open>clickUsec\<close> after the release was read, and the last poll, at \<open>tf\<close>, comes
  \<open>clickUsec\<close> or more after the last release, produces exactly one \<open>handleClick\<close>
  call (between \<open>handleDown\<close> and \<open>handleUp\<close>), and its count is \<open>N - 1\<close> modulo 256:
  \<open>N - 1\<close> itself for up to 256 cycles.
\<close>

theorem multi_click_count:
  assumes "btn_state b = Idle" "btn_clicks b = 0" "btn_config b = Some c" "clickUsec c \<noteq> 0"
    and "\<forall>p\<in>set bounce. snd p - t0 < 5000" "5000 \<le> t1 - t0"
    and "rapid_clicks c t0 ks"
    and "holdUsec c = 0 \<or> (\<forall>x\<in>set held. x - press_time t0 ks < holdUsec c)"
    and "\<forall>g\<in>set gap. g - tr < clickUsec c"
    and "clickUsec c \<le> tf - tr"
  shows "Button_run (click_sequence b t0 bounce t1 ks held tr gap tf) ev b =
      (ev + 1,
       b\<lparr>btn_state := Reset, btn_clicks := of_nat (length ks), btn_usec := tr,
         btn_event := ev, btn_busy := True\<rparr>,
       [HandleDown, HandleClick (of_nat (length ks)), HandleUp])
    \<and> click_counts (snd (snd (Button_run (click_sequence b t0 bounce t1 ks held tr gap tf) ev b))) =
        [length ks mod 256]"
proof -
  have 1: "Button_run (click_sequence b t0 bounce t1 ks held tr gap tf) ev b =
      (ev + 1,
       b\<lparr>btn_state := Reset, btn_clicks := of_nat (length ks), btn_usec := tr,
         btn_event := ev, btn_busy := True\<rparr>,
       [HandleDown, HandleClick (of_nat (length ks)), HandleUp])"
    by (rule run_click_sequence[OF assms])
  have "unat (of_nat (length ks) :: u8) = length ks mod 256"
    by (simp add: unat_of_nat)
  then show ?thesis using 1 by simp
qed

theorem multi_click_count_witness:
  "Button_run
     (click_sequence example_button 1000 [(True, 2000)] 6500 [([10000], 50000, [60000], 120000)]
        [130000] 180000 [200000] 400000) 0 example_button =
   (1, example_button\<lparr>btn_state := Reset, btn_clicks := 1, btn_usec := 180000, btn_busy := True\<rparr>,
    [HandleDown, HandleClick 1, HandleUp])"
  using multi_click_count[where b = example_button
      and c = "\<lparr>clickUsec = 200000, holdUsec = 500000\<rparr>"
      and bounce = "[(True, 2000)]" and ?t0.0 = 1000 and ?t1.0 = 6500
      and ks = "[([10000], 50000, [60000], 120000)]" and held = "[130000]" and tr = 180000
      and gap = "[200000]" and tf = 400000 and ev = 0]
  by (simp add: example_button_def Button_new_def)

section \<open>The event id of a sequence\<close>

text \<open>
  Claim C6.  \<open>_event\<close> is assigned once per transition out of \<open>Idle\<close>, from the
  global counter, which is incremented; no other transition changes it or the counter,
  until the step out of \<open>Reset\<close> clears it.  First for one call of \<open>loop()\<close>, by the
  state it starts in; then for a run of polls from a state other than \<open>Idle\<close>: as long
  as the machine has not come back to \<open>Idle\<close>, the event id after every poll is the
  one it started with, and the counter has not moved.
\<close>

theorem event_id_stable:
  "(case btn_state b of
      Idle \<Rightarrow>
        (if level = btn_high b
         then btn_event (fst (snd (Button_loop level now ev b))) = ev \<and>
              fst (Button_loop level now ev b) = ev + 1 \<and>
              btn_state (fst (snd (Button_loop level now ev b))) = WaitDown
         else Button_loop level now ev b = (ev, b, []))
    | Reset \<Rightarrow>
        btn_event (fst (snd (Button_loop level now ev b))) = 0 \<and>
        fst (Button_loop level now ev b) = ev \<and>
        btn_state (fst (snd (Button_loop level now ev b))) = Idle
    | _ \<Rightarrow>
        btn_event (fst (snd (Button_loop level now ev b))) = btn_event b \<and>
        fst (Button_loop level now ev b) = ev \<and>
        btn_state (fst (snd (Button_loop level now ev b))) \<noteq> Idle)
   \<and> (btn_state b \<noteq> Idle \<and> (\<forall>x\<in>set (Button_states ps ev b). btn_state (snd x) \<noteq> Idle) \<longrightarrow>
        (\<forall>x\<in>set (Button_states ps ev b). btn_event (snd x) = btn_event b \<and> fst x = ev))"
proof
  show "(case btn_state b of
      Idle \<Rightarrow>
        (if level = btn_high b
         then btn_event (fst (snd (Button_loop level now ev b))) = ev \<and>
              fst (Button_loop level now ev b) = ev + 1 \<and>
              btn_state (fst (snd (Button_loop level now ev b))) = WaitDown
         else Button_loop level now ev b = (ev, b, []))
    | Reset \<Rightarrow>
        btn_event (fst (snd (Button_loop level now ev b))) = 0 \<and>
        fst (Button_loop level now ev b) = ev \<and>
        btn_state (fst (snd (Button_loop level now ev b))) = Idle
    | _ \<Rightarrow>
        btn_event (fst (snd (Button_loop level now ev b))) = btn_event b \<and>
        fst (Button_loop level now ev b) = ev \<and>
        btn_state (fst (snd (Button_loop level now ev b))) \<noteq> Idle)"
    by (simp add: Button_loop_def Let_def split: State.split option.split)
next
  show "btn_state b \<noteq> Idle \<and> (\<forall>x\<in>set (Button_states ps ev b). btn_state (snd x) \<noteq> Idle) \<longrightarrow>
        (\<forall>x\<in>set (Button_states ps ev b). btn_event (snd x) = btn_event b \<and> fst x = ev)"
  proof (induction ps arbitrary: b)
    case Nil
    then show ?case by simp
  next
    case (Cons p ps)
    show ?case
    proof
      assume a: "btn_state b \<noteq> Idle \<and>
        (\<forall>x\<in>set (Button_states (p # ps) ev b). btn_state (snd x) \<noteq> Idle)"
      obtain ev1 b1 hs where s: "Button_loop (fst p) (snd p) ev b = (ev1, b1, hs)"
        by (cases "Button_loop (fst p) (snd p) ev b") auto
      have st: "Button_states (p # ps) ev b = (ev1, b1) # Button_states ps ev1 b1"
        using s by simp
      have all: "\<forall>x\<in>set ((ev1, b1) # Button_states ps ev1 b1). btn_state (snd x) \<noteq> Idle"
        using a unfolding st by blast
      have n1: "btn_state b1 \<noteq> Idle" using all by simp
      have n0: "btn_state b \<noteq> Idle" using a by blast
      have keep: "btn_event b1 = btn_event b \<and> ev1 = ev"
        using n0 n1 s
        by (cases "btn_state b") (auto simp: Button_loop_def Let_def split: option.splits if_splits)
      have rest: "\<forall>x\<in>set (Button_states ps ev b1). btn_state (snd x) \<noteq> Idle"
        using all keep by simp
      have "\<forall>x\<in>set (Button_states ps ev b1). btn_event (snd x) = btn_event b1 \<and> fst x = ev"
        using Cons.IH[of b1] n1 rest by blast
      then show "\<forall>x\<in>set (Button_states (p # ps) ev b). btn_event (snd x) = btn_event b \<and> fst x = ev"
        unfolding st using keep by simp
    qed
  qed
qed

theorem event_id_stable_witness:
  "map (\<lambda>x. (fst x, btn_state (snd x), btn_event (snd x)))
     (Button_states [(True, 6000), (False, 7000)] 5
        ((Button_new None 7 True False)\<lparr>btn_state := WaitDown, btn_event := 4\<rparr>)) =
   [(5, Down, 4), (5, Up, 4)]"
  using event_id_stable[where b = "(Button_new None 7 True False)\<lparr>btn_state := WaitDown, btn_event := 4\<rparr>"
      and ps = "[(True, 6000), (False, 7000)]" and ev = 5 and level = True and now = 0]
  by (simp add: Button_new_def Button_loop_def)

section \<open>Elapsed time and counter wrap-around\<close>

text \<open>
  Claim C7.  Elapsed time is the 32-bit unsigned difference \<open>now - since\<close>.  When \<open>d\<close>
  microseconds have really passed since the counter read \<open>since\<close>, so that it reads
  \<open>since + d\<close> modulo \<open>2^32\<close>, across a wrap-around or not, the elapsed time
  computed is \<open>d\<close> modulo \<open>2^32\<close>.  It never exceeds \<open>d\<close>, so a comparison with a
  threshold reports a window as elapsed only if it has: in the debounce test of
  \<open>Button::loop()\<close>, fewer than 5000 microseconds of real time leave the machine in
  \<open>WaitDown\<close>, wherever the counter stands.
\<close>

theorem elapsed_wraparound_safe:
  "unat (getUsecSince (since + of_nat d) since) = d mod 2 ^ 32
   \<and> unat (getUsecSince (since + of_nat d) since) \<le> d
   \<and> (unat (threshold :: u32) \<le> unat (getUsecSince (since + of_nat d) since) \<longrightarrow>
        unat threshold \<le> d)
   \<and> (btn_state b = WaitDown \<and> d < 5000 \<longrightarrow>
        Button_loop level (btn_usec b + of_nat d) ev b = (ev, b, []))"
proof -
  have 1: "unat (getUsecSince (since + of_nat d) since) = d mod 2 ^ 32"
    by (simp add: getUsecSince_def unat_of_nat)
  have 2: "unat (getUsecSince (since + of_nat d) since) \<le> d"
    unfolding 1 by simp
  have 3: "btn_state b = WaitDown \<and> d < 5000 \<longrightarrow>
        Button_loop level (btn_usec b + of_nat d) ev b = (ev, b, [])"
  proof
    assume a: "btn_state b = WaitDown \<and> d < 5000"
    have "unat (of_nat d :: u32) < unat (5000 :: u32)"
      using a by (simp add: unat_of_nat)
    then have "(of_nat d :: u32) < 5000" by (simp add: word_less_nat_alt)
    then show "Button_loop level (btn_usec b + of_nat d) ev b = (ev, b, [])"
      using a by (simp add: loop_WaitDown_wait)
  qed
  show ?thesis using 1 2 3 by auto
qed

theorem elapsed_wraparound_safe_witness:
  "unat (getUsecSince (4294967000 + of_nat 1000) 4294967000) = 1000
   \<and> unat (4294967000 + of_nat 1000 :: u32) = 704
   \<and> Button_loop True (4294967000 + of_nat 1000) 0
        ((Button_new None 7 True False)\<lparr>btn_state := WaitDown, btn_usec := 4294967000\<rparr>) =
       (0, (Button_new None 7 True False)\<lparr>btn_state := WaitDown, btn_usec := 4294967000\<rparr>, [])"
  using elapsed_wraparound_safe[where since = 4294967000 and d = 1000 and threshold = 5000
      and b = "(Button_new None 7 True False)\<lparr>btn_state := WaitDown, btn_usec := 4294967000\<rparr>"
      and level = True and ev = 0]
  by (simp add: Button_new_def)

section \<open>The dispatcher\<close>

lemma scan_log:
  "scan smp i ev bs = (ev', bs', busy, pl) \<Longrightarrow>
     map poll_pin pl = map btn_pin bs \<and> map poll_from pl = map btn_state bs \<and>
     bs' = map poll_button pl \<and> busy = (\<exists>b\<in>set bs'. btn_busy b)"
proof (induction bs arbitrary: i ev ev' bs' busy pl)
  case Nil
  then show ?case by simp
next
  case (Cons b bs)
  obtain ev1 b1 hs where s: "Button_loop (fst (smp i)) (snd (smp i)) ev b = (ev1, b1, hs)"
    by (cases "Button_loop (fst (smp i)) (snd (smp i)) ev b") auto
  obtain ev2 bs2 busy2 log2 where r: "scan smp (Suc i) ev1 bs = (ev2, bs2, busy2, log2)"
    by (cases "scan smp (Suc i) ev1 bs") auto
  from Cons.IH[OF r] Cons.prems s r show ?case by auto
qed

text \<open>
  Claim C1, as stated: after an interrupt has set the busy flag, the next call of
  \<open>V2Buttons::loop()\<close> scans the list whether or not 1 ms has passed since the last
  scan.  In the run below a button is registered, a call at 2000 microseconds scans
  (the pin is released, the flag is cleared), an interrupt sets the flag, and a call
  at 2500 microseconds, with the pin now asserted, returns without polling any button
  and without changing the state: the flag is still set, the button still idle.
\<close>

theorem scan_regardless_of_rate_limit_counterexample:
  "g_busy (fst (Buttons_run [Loop 2000 2000 (\<lambda>i. (False, 2000)), Interrupt]
             (Buttons_start [Button_new None 7 True False])))
   \<and> V2Buttons_loop 2500 2500 (\<lambda>i. (True, 2500))
        (fst (Buttons_run [Loop 2000 2000 (\<lambda>i. (False, 2000)), Interrupt]
                (Buttons_start [Button_new None 7 True False]))) =
       (fst (Buttons_run [Loop 2000 2000 (\<lambda>i. (False, 2000)), Interrupt]
                (Buttons_start [Button_new None 7 True False])), [])
   \<and> snd (Buttons_run [Loop 2000 2000 (\<lambda>i. (False, 2000))]
             (Buttons_start [Button_new None 7 True False])) \<noteq> []"
  by (simp add: V2Buttons_loop_def Buttons_start_def Buttons_init_def Button_begin_def
      Button_new_def Button_loop_def pinInterrupt_def)

text \<open>
  Claim C1, amended.  A call of \<open>V2Buttons::loop()\<close> scans the button list exactly
  when the busy flag is set and at least 1000 microseconds (modulo \<open>2^32\<close>) have
  passed since the last scan.  Then every button of the list is polled once, in order,
  the time of the scan is stored and the flag becomes the disjunction of the buttons'
  busy flags.  Otherwise, with the flag clear or inside the rate limit, the call polls
  no button and leaves the state as it is, the busy flag included.
\<close>

theorem dispatcher_scan_gate:
  "(g_busy g \<and> 1000 \<le> t_check - g_usec g \<longrightarrow>
      map poll_pin (snd (V2Buttons_loop t_check t_store smp g)) = map btn_pin (g_list g) \<and>
      map poll_from (snd (V2Buttons_loop t_check t_store smp g)) = map btn_state (g_list g) \<and>
      g_list (fst (V2Buttons_loop t_check t_store smp g)) =
        map poll_button (snd (V2Buttons_loop t_check t_store smp g)) \<and>
      g_usec (fst (V2Buttons_loop t_check t_store smp g)) = t_store \<and>
      g_busy (fst (V2Buttons_loop t_check t_store smp g)) =
        (\<exists>b\<in>set (g_list (fst (V2Buttons_loop t_check t_store smp g))). btn_busy b))
   \<and> (\<not> (g_busy g \<and> 1000 \<le> t_check - g_usec g) \<longrightarrow>
      V2Buttons_loop t_check t_store smp g = (g, []))"
proof (intro conjI impI)
  assume a: "g_busy g \<and> 1000 \<le> t_check - g_usec g"
  obtain ev bs busy pl where r: "scan smp 0 (g_event g) (g_list g) = (ev, bs, busy, pl)"
    by (cases "scan smp 0 (g_event g) (g_list g)") auto
  have l: "V2Buttons_loop t_check t_store smp g =
      (g\<lparr>g_usec := t_store, g_event := ev, g_list := bs, g_busy := busy\<rparr>, pl)"
    using a r by (simp add: V2Buttons_loop_def not_less[symmetric])
  note f = scan_log[OF r]
  show "map poll_pin (snd (V2Buttons_loop t_check t_store smp g)) = map btn_pin (g_list g)"
    using f by (simp add: l)
  show "map poll_from (snd (V2Buttons_loop t_check t_store smp g)) = map btn_state (g_list g)"
    using f by (simp add: l)
  show "g_list (fst (V2Buttons_loop t_check t_store smp g)) =
        map poll_button (snd (V2Buttons_loop t_check t_store smp g))"
    using f by (simp add: l)
  show "g_usec (fst (V2Buttons_loop t_check t_store smp g)) = t_store"
    by (simp add: l)
  show "g_busy (fst (V2Buttons_loop t_check t_store smp g)) =
        (\<exists>b\<in>set (g_list (fst (V2Buttons_loop t_check t_store smp g))). btn_busy b)"
    using f by (simp add: l)
next
  assume "\<not> (g_busy g \<and> 1000 \<le> t_check - g_usec g)"
  then show "V2Buttons_loop t_check t_store smp g = (g, [])"
    by (auto simp: V2Buttons_loop_def not_le)
qed

theorem dispatcher_scan_gate_witness:
  "map poll_pin (snd (V2Buttons_loop 3000 3001 (\<lambda>i. (True, 3002))
        (pinInterrupt (Buttons_start [Button_new None 7 True False])))) = [7]
   \<and> V2Buttons_loop 500 501 (\<lambda>i. (True, 502))
        (pinInterrupt (Buttons_start [Button_new None 7 True False])) =
       (pinInterrupt (Buttons_start [Button_new None 7 True False]), [])"
  using dispatcher_scan_gate[of "pinInterrupt (Buttons_start [Button_new None 7 True False])"
      3000 3001 "\<lambda>i. (True, 3002)"]
    dispatcher_scan_gate[of "pinInterrupt (Buttons_start [Button_new None 7 True False])"
      500 501 "\<lambda>i. (True, 502)"]
  by (simp add: Buttons_start_def Buttons_init_def Button_begin_def
      Button_new_def pinInterrupt_def)

lemma Buttons_run_append:
  "Buttons_run (xs @ ys) g =
     (case Buttons_run xs g of
        (g1, log1) \<Rightarrow> (case Buttons_run ys g1 of (g2, log2) \<Rightarrow> (g2, log1 @ log2)))"
  by (induction xs arbitrary: g) (auto split: prod.splits)

lemma Buttons_run_deferred:
  "g_busy g \<Longrightarrow> \<forall>i\<in>set early. deferred g i \<Longrightarrow> Buttons_run early g = (g, [])"
proof (induction early)
  case Nil
  then show ?case by simp
next
  case (Cons i early)
  have "Buttons_step i g = (g, [])"
  proof (cases i)
    case Interrupt
    then show ?thesis using Cons.prems(1) by (simp add: pinInterrupt_def)
  next
    case (Loop tc ts smp)
    then show ?thesis using Cons.prems by (simp add: V2Buttons_loop_def)
  qed
  then show ?case using Cons by simp
qed

text \<open>
  Claim C8.  With the busy flag set, calls of \<open>V2Buttons::loop()\<close> that come less
  than 1 ms after the last scan, and interrupts between them, leave the state as it is:
  the flag stays set.  The first call at which the rate limit has expired scans the
  list: it polls every registered button.
\<close>

theorem deferred_scan_not_lost:
  assumes "g_busy g"
    and "\<forall>i\<in>set early. deferred g i"
    and "1000 \<le> t_check - g_usec g"
  shows "Buttons_run early g = (g, [])
       \<and> Buttons_run (early @ [Loop t_check t_store smp]) g = V2Buttons_loop t_check t_store smp g
       \<and> map poll_pin (snd (Buttons_run (early @ [Loop t_check t_store smp]) g)) =
           map btn_pin (g_list g)"
proof -
  have 1: "Buttons_run early g = (g, [])"
    by (rule Buttons_run_deferred[OF assms(1,2)])
  have 2: "Buttons_run (early @ [Loop t_check t_store smp]) g = V2Buttons_loop t_check t_store smp g"
    by (simp add: Buttons_run_append 1 split: prod.splits)
  obtain ev bs busy pl where r: "scan smp 0 (g_event g) (g_list g) = (ev, bs, busy, pl)"
    by (cases "scan smp 0 (g_event g) (g_list g)") auto
  have "map poll_pin (snd (V2Buttons_loop t_check t_store smp g)) = map btn_pin (g_list g)"
    using assms(1,3) scan_log[OF r] r by (simp add: V2Buttons_loop_def not_less[symmetric])
  then show ?thesis using 1 2 by simp
qed

theorem deferred_scan_not_lost_witness:
  "Buttons_run [Loop 300 300 (\<lambda>i. (True, 300)), Interrupt, Loop 900 900 (\<lambda>i. (True, 900))]
      (pinInterrupt (Buttons_start [Button_new None 7 True False])) =
     (pinInterrupt (Buttons_start [Button_new None 7 True False]), [])
   \<and> map poll_pin (snd (Buttons_run
        ([Loop 300 300 (\<lambda>i. (True, 300)), Interrupt, Loop 900 900 (\<lambda>i. (True, 900))] @
         [Loop 1200 1201 (\<lambda>i. (True, 1202))])
        (pinInterrupt (Buttons_start [Button_new None 7 True False])))) = [7]"
  using deferred_scan_not_lost[of "pinInterrupt (Buttons_start [Button_new None 7 True False])"
      "[Loop 300 300 (\<lambda>i. (True, 300)), Interrupt, Loop 900 900 (\<lambda>i. (True, 900))]"
      1200 1201 "\<lambda>i. (True, 1202)"]
  by (simp add: Buttons_start_def Buttons_init_def Button_begin_def
      Button_new_def pinInterrupt_def V2Buttons_loop_def Button_loop_def)

section \<open>Event ids come from one counter\<close>

lemma wake_ups_append: "wake_ups (xs @ ys) = wake_ups xs @ wake_ups ys"
  by (simp add: wake_ups_def)

lemma ids_from_0: "ids_from c 0 = []"
  by (simp add: ids_from_def)

lemma ids_from_Suc: "ids_from c (Suc n) = c # ids_from (c + 1) n"
proof -
  have "[0..<Suc n] = 0 # map Suc [0..<n]"
    by (simp add: upt_conv_Cons map_Suc_upt del: upt_Suc)
  then show ?thesis by (simp add: ids_from_def comp_def add.assoc add.commute del: upt_Suc)
qed

lemma length_ids_from [simp]: "length (ids_from c n) = n"
  by (simp add: ids_from_def)

lemma ids_from_add: "ids_from c (m + n) = ids_from c m @ ids_from (c + of_nat m) n"
proof (induction m arbitrary: c)
  case 0
  then show ?case by (simp add: ids_from_0)
next
  case (Suc m)
  have "ids_from c (Suc m + n) = c # ids_from (c + 1) (m + n)"
    by (simp add: ids_from_Suc)
  also have "\<dots> = c # ids_from (c + 1) m @ ids_from (c + 1 + of_nat m) n"
    by (simp add: Suc.IH)
  also have "\<dots> = ids_from c (Suc m) @ ids_from (c + of_nat (Suc m)) n"
    by (simp add: ids_from_Suc ac_simps)
  finally show ?case .
qed

text \<open>What one poll does to the counter and to the event id.\<close>

lemma Button_loop_counter:
  assumes "Button_loop level now ev b = (ev1, b1, hs)"
  shows "(btn_state b = Idle \<and> btn_state b1 \<noteq> Idle \<longrightarrow> getEvent b1 = ev \<and> ev1 = ev + 1)
       \<and> (\<not> (btn_state b = Idle \<and> btn_state b1 \<noteq> Idle) \<longrightarrow> ev1 = ev)
       \<and> ((btn_state b = Idle \<longrightarrow> btn_event b = 0) \<longrightarrow> (btn_state b1 = Idle \<longrightarrow> btn_event b1 = 0))"
  using assms
  by (cases "btn_state b")
     (auto simp: Button_loop_def Let_def getEvent_def split: if_splits option.splits)

lemma scan_wake_ups:
  assumes "scan smp i ev bs = (ev', bs', busy, pl)"
    and "\<forall>b\<in>set bs. btn_state b = Idle \<longrightarrow> btn_event b = 0"
  shows "\<exists>n. wake_ups pl = ids_from ev n \<and> ev' = ev + of_nat n
       \<and> (\<forall>b\<in>set bs'. btn_state b = Idle \<longrightarrow> btn_event b = 0)"
  using assms
proof (induction bs arbitrary: i ev ev' bs' busy pl)
  case Nil
  then show ?case by (intro exI[of _ 0]) (simp add: wake_ups_def ids_from_0)
next
  case (Cons b bs)
  obtain ev1 b1 hs where s: "Button_loop (fst (smp i)) (snd (smp i)) ev b = (ev1, b1, hs)"
    by (cases "Button_loop (fst (smp i)) (snd (smp i)) ev b") auto
  obtain ev2 bs2 busy2 log2 where r: "scan smp (Suc i) ev1 bs = (ev2, bs2, busy2, log2)"
    by (cases "scan smp (Suc i) ev1 bs") auto
  let ?e = "\<lparr>poll_pin = btn_pin b, poll_from = btn_state b, poll_button = b1, poll_hooks = hs\<rparr>"
  have res: "ev' = ev2" "bs' = b1 # bs2" "pl = ?e # log2"
    using Cons.prems(1) s r by simp_all
  obtain n where ih: "wake_ups log2 = ids_from ev1 n" "ev2 = ev1 + of_nat n"
    "\<forall>b\<in>set bs2. btn_state b = Idle \<longrightarrow> btn_event b = 0"
    using Cons.IH[OF r] Cons.prems(2) by auto
  note c = Button_loop_counter[OF s]
  have b1: "btn_state b1 = Idle \<longrightarrow> btn_event b1 = 0"
    using c Cons.prems(2) by simp
  have inv: "\<forall>b\<in>set bs'. btn_state b = Idle \<longrightarrow> btn_event b = 0"
    using ih(3) b1 res by simp
  show ?case
  proof (cases "btn_state b = Idle \<and> btn_state b1 \<noteq> Idle")
    case True
    then have w: "wake_ups pl = ev # wake_ups log2" and e1: "ev1 = ev + 1"
      using c by (simp_all add: res wake_ups_def)
    have "wake_ups pl = ids_from ev (Suc n)"
      using w ih(1) e1 by (simp add: ids_from_Suc)
    moreover have "ev' = ev + of_nat (Suc n)"
      using res ih(2) e1 by (simp add: ac_simps)
    ultimately show ?thesis using inv by blast
  next
    case False
    then have w: "wake_ups pl = wake_ups log2" and e1: "ev1 = ev"
      using c by (auto simp: res wake_ups_def)
    have "wake_ups pl = ids_from ev n" "ev' = ev + of_nat n"
      using w ih e1 res by simp_all
    then show ?thesis using inv by blast
  qed
qed

lemma Buttons_step_wake_ups:
  assumes "Buttons_step inp g = (g', pl)"
    and "\<forall>b\<in>set (g_list g). btn_state b = Idle \<longrightarrow> btn_event b = 0"
  shows "\<exists>n. wake_ups pl = ids_from (g_event g) n
       \<and> g_event g' = g_event g + of_nat n
       \<and> (\<forall>b\<in>set (g_list g'). btn_state b = Idle \<longrightarrow> btn_event b = 0)"
proof (cases inp)
  case Interrupt
  then have "g' = pinInterrupt g" "pl = []" using assms(1) by auto
  then show ?thesis using assms(2)
    by (intro exI[of _ 0]) (simp add: pinInterrupt_def wake_ups_def ids_from_0)
next
  case (Loop tc ts smp)
  show ?thesis
  proof (cases "g_busy g \<and> \<not> tc - g_usec g < 1000")
    case True
    obtain ev bs busy l where r: "scan smp 0 (g_event g) (g_list g) = (ev, bs, busy, l)"
      by (cases "scan smp 0 (g_event g) (g_list g)") auto
    have "g' = g\<lparr>g_usec := ts, g_event := ev, g_list := bs, g_busy := busy\<rparr>" "pl = l"
      using assms(1) True r Loop by (auto simp: V2Buttons_loop_def)
    then show ?thesis using scan_wake_ups[OF r assms(2)] by simp
  next
    case False
    then have "g' = g" "pl = []"
      using assms(1) Loop by (auto simp: V2Buttons_loop_def split: if_splits)
    then show ?thesis using assms(2)
      by (intro exI[of _ 0]) (simp add: wake_ups_def ids_from_0)
  qed
qed

lemma Buttons_run_wake_ups:
  assumes "Buttons_run ins g = (g', pl)"
    and "\<forall>b\<in>set (g_list g). btn_state b = Idle \<longrightarrow> btn_event b = 0"
  shows "\<exists>n. wake_ups pl = ids_from (g_event g) n
       \<and> g_event g' = g_event g + of_nat n
       \<and> (\<forall>b\<in>set (g_list g'). btn_state b = Idle \<longrightarrow> btn_event b = 0)"
  using assms
proof (induction ins arbitrary: g g' pl)
  case Nil
  then show ?case by (intro exI[of _ 0]) (auto simp: wake_ups_def ids_from_0)
next
  case (Cons i ins)
  obtain g1 log1 where s: "Buttons_step i g = (g1, log1)"
    by (cases "Buttons_step i g") auto
  obtain g2 log2 where r: "Buttons_run ins g1 = (g2, log2)"
    by (cases "Buttons_run ins g1") auto
  have res: "g' = g2" "pl = log1 @ log2"
    using Cons.prems(1) s r by simp_all
  obtain n1 where a: "wake_ups log1 = ids_from (g_event g) n1"
    "g_event g1 = g_event g + of_nat n1"
    "\<forall>b\<in>set (g_list g1). btn_state b = Idle \<longrightarrow> btn_event b = 0"
    using Buttons_step_wake_ups[OF s Cons.prems(2)] by auto
  obtain n2 where b: "wake_ups log2 = ids_from (g_event g1) n2"
    "g_event g2 = g_event g1 + of_nat n2"
    "\<forall>b\<in>set (g_list g2). btn_state b = Idle \<longrightarrow> btn_event b = 0"
    using Cons.IH[OF r a(3)] by auto
  have "wake_ups pl = ids_from (g_event g) (n1 + n2)"
    using a b by (simp add: res wake_ups_append ids_from_add)
  moreover have "g_event g' = g_event g + of_nat (n1 + n2)"
    using a b by (simp add: res add.assoc)
  ultimately show ?case using b(3) res by blast
qed

lemma Buttons_start_simps:
  "g_event (Buttons_start bs) = 0" "g_list (Buttons_start bs) = bs"
  by (induction bs) (simp_all add: Buttons_start_def Buttons_init_def Button_begin_def)

text \<open>
  Claim C9.  After startup, with the registered buttons as constructed, whatever
  interrupts and calls of \<open>V2Buttons::loop()\<close> follow: \<open>getEvent()\<close> returns 0 for every
  button as constructed and for every button in \<open>Idle\<close>; the wake-ups of all the
  buttons, in the order they happen, get the ids 0, 1, 2, ... of the one global
  counter, so that the first sequence after startup has the id 0 too, and every later
  wake-up has a strictly larger id than the ones before it, until the 32-bit counter
  wraps.
\<close>

theorem event_ids_from_shared_counter:
  assumes "\<forall>b\<in>set bs. fresh b"
    and "Buttons_run ins (Buttons_start bs) = (g, pl)"
  shows "(\<forall>b\<in>set bs. getEvent b = 0)
       \<and> (\<forall>b\<in>set (g_list g). btn_state b = Idle \<longrightarrow> getEvent b = 0)
       \<and> (\<forall>i < length (wake_ups pl). wake_ups pl ! i = of_nat i)
       \<and> (\<forall>i j. i < j \<and> j < length (wake_ups pl) \<and> j < 2 ^ 32 \<longrightarrow> wake_ups pl ! i < wake_ups pl ! j)
       \<and> g_event g = of_nat (length (wake_ups pl))"
proof -
  have f: "\<forall>b\<in>set bs. btn_event b = 0 \<and> btn_state b = Idle"
  proof
    fix b assume "b \<in> set bs"
    then have "fresh b" using assms(1) by simp
    then have "b = Button_new (btn_config b) (btn_pin b) (btn_high b) (btn_pushpull b)"
      by (simp add: fresh_def)
    then have "btn_event b = btn_event (Button_new (btn_config b) (btn_pin b) (btn_high b) (btn_pushpull b))"
      "btn_state b = btn_state (Button_new (btn_config b) (btn_pin b) (btn_high b) (btn_pushpull b))"
      by simp_all
    then show "btn_event b = 0 \<and> btn_state b = Idle" by (simp add: Button_new_def)
  qed
  have inv: "\<forall>b\<in>set (g_list (Buttons_start bs)). btn_state b = Idle \<longrightarrow> btn_event b = 0"
    using f by (simp add: Buttons_start_simps)
  obtain n where r: "wake_ups pl = ids_from 0 n" "g_event g = of_nat n"
    "\<forall>b\<in>set (g_list g). btn_state b = Idle \<longrightarrow> btn_event b = 0"
    using Buttons_run_wake_ups[OF assms(2) inv] by (auto simp: Buttons_start_simps)
  have n: "n = length (wake_ups pl)" using r(1) by simp
  have w: "wake_ups pl = ids_from 0 (length (wake_ups pl))"
    using r(1) n by simp
  have nth: "wake_ups pl ! i = of_nat i" if "i < length (wake_ups pl)" for i
  proof -
    have "wake_ups pl ! i = ids_from 0 (length (wake_ups pl)) ! i" using w by simp
    also have "\<dots> = of_nat i" using that by (simp add: ids_from_def)
    finally show ?thesis .
  qed
  have lt: "wake_ups pl ! i < wake_ups pl ! j"
    if "i < j \<and> j < length (wake_ups pl) \<and> j < 2 ^ 32" for i j
  proof -
    have "unat (of_nat i :: u32) = i" "unat (of_nat j :: u32) = j"
      using that by (simp_all add: unat_of_nat)
    then have "(of_nat i :: u32) < of_nat j"
      using that by (simp add: word_less_nat_alt)
    then show ?thesis using nth that by simp
  qed
  show ?thesis
    using f r(2,3) n nth lt by (simp add: getEvent_def)
qed

theorem event_ids_from_shared_counter_witness:
  "wake_ups (snd (Buttons_run
      [Loop 2000 2000 (\<lambda>i. (i = 0, 2000)), Loop 4000 4000 (\<lambda>i. (True, 4000))]
      (Buttons_start [Button_new None 3 True False, Button_new None 7 True False]))) = [0, 1]
   \<and> map (\<lambda>b. (btn_state b, getEvent b)) (g_list (fst (Buttons_run
      [Loop 2000 2000 (\<lambda>i. (i = 0, 2000)), Loop 4000 4000 (\<lambda>i. (True, 4000))]
      (Buttons_start [Button_new None 3 True False, Button_new None 7 True False])))) =
     [(WaitDown, 0), (WaitDown, 1)]"
  using event_ids_from_shared_counter[of "[Button_new None 3 True False, Button_new None 7 True False]"
      "[Loop 2000 2000 (\<lambda>i. (i = 0, 2000)), Loop 4000 4000 (\<lambda>i. (True, 4000))]"
      "fst (Buttons_run
      [Loop 2000 2000 (\<lambda>i. (i = 0, 2000)), Loop 4000 4000 (\<lambda>i. (True, 4000))]
      (Buttons_start [Button_new None 3 True False, Button_new None 7 True False]))"
      "snd (Buttons_run
      [Loop 2000 2000 (\<lambda>i. (i = 0, 2000)), Loop 4000 4000 (\<lambda>i. (True, 4000))]
      (Buttons_start [Button_new None 3 True False, Button_new None 7 True False]))"]
  by (simp add: Buttons_start_def Buttons_init_def Button_begin_def Button_new_def
      V2Buttons_loop_def Button_loop_def wake_ups_def getEvent_def fresh_def)

section \<open>The over-current cutoff\<close>

lemma last_duty_append:
  "last_duty q (xs @ ys) = (case last_duty q ys of Some d \<Rightarrow> Some d | None \<Rightarrow> last_duty q xs)"
  by (induction xs) (auto split: option.splits effect.splits)

lemma last_duty_updateLED [simp]: "last_duty q (updateLED i f s) = None"
  by (simp add: updateLED_def split: CoilState.splits)

lemma releasePort_fields [simp]:
  "s_config (fst (releasePort i s)) = s_config s"
  "s_current (fst (releasePort i s)) = s_current s"
  "s_probe (fst (releasePort i s)) = s_probe s"
  "s_loopUsec (fst (releasePort i s)) = s_loopUsec s"
  "s_powerUsec (fst (releasePort i s)) = s_powerUsec s"
  "s_timeoutUsec (fst (releasePort i s)) = s_timeoutUsec s"
  "length (s_ports (fst (releasePort i s))) = length (s_ports s)"
  by (simp_all add: releasePort_def Let_def)

lemma releasePort_nth:
  "k < length (s_ports s) \<Longrightarrow>
   s_ports (fst (releasePort i s)) ! k =
     (if k = i then (s_ports s ! k)\<lparr>p_state := DriverIdle, p_duty := 0, p_pulse := Pulse_zero\<rparr>
      else s_ports s ! k)"
  by (simp add: releasePort_def Let_def nth_list_update)

lemma releasePort_duty:
  "last_duty q (snd (releasePort i s)) = (if q = of_nat i then Some 0 else None)"
  by (auto simp: releasePort_def Let_def)

lemma releasePorts_fields [simp]:
  "s_config (fst (releasePorts js s)) = s_config s"
  "s_current (fst (releasePorts js s)) = s_current s"
  "s_loopUsec (fst (releasePorts js s)) = s_loopUsec s"
  "s_powerUsec (fst (releasePorts js s)) = s_powerUsec s"
  "s_timeoutUsec (fst (releasePorts js s)) = s_timeoutUsec s"
  "length (s_ports (fst (releasePorts js s))) = length (s_ports s)"
  by (induction js arbitrary: s) (simp_all add: Let_def)

lemma releasePorts_nth:
  "k < length (s_ports s) \<Longrightarrow>
   (k \<in> set js \<or> port_released (s_ports s ! k) \<longrightarrow> port_released (s_ports (fst (releasePorts js s)) ! k))
   \<and> p_measure (s_ports (fst (releasePorts js s)) ! k) = p_measure (s_ports s ! k)"
proof (induction js arbitrary: s)
  case Nil
  then show ?case by simp
next
  case (Cons j js)
  let ?s1 = "fst (releasePort j s)"
  have k: "k < length (s_ports ?s1)" using Cons.prems by simp
  have 1: "k = j \<or> port_released (s_ports s ! k) \<longrightarrow> port_released (s_ports ?s1 ! k)"
    using Cons.prems by (auto simp: releasePort_nth port_released_def)
  have 2: "p_measure (s_ports ?s1 ! k) = p_measure (s_ports s ! k)"
    using Cons.prems by (simp add: releasePort_nth)
  show ?case using Cons.IH[OF k] 1 2 by (auto simp: Let_def)
qed

lemma releasePorts_duty:
  "last_duty q (snd (releasePorts js s)) = (if q \<in> of_nat ` set js then Some 0 else None)"
  by (induction js arbitrary: s) (auto simp: Let_def last_duty_append releasePort_duty)

lemma fadeOutPort_fields [simp]:
  "s_config (snd (fadeOutPort flt i s)) = s_config s"
  "s_current (snd (fadeOutPort flt i s)) = s_current s"
  "length (s_ports (snd (fadeOutPort flt i s))) = length (s_ports s)"
  by (simp_all add: fadeOutPort_def Let_def)

lemma drivePort_fields [simp]:
  "s_config (fst (drivePort flt now i s)) = s_config s"
  "s_current (fst (drivePort flt now i s)) = s_current s"
  "length (s_ports (fst (drivePort flt now i s))) = length (s_ports s)"
  by (simp_all add: drivePort_def Let_def split: DriverState.splits)

lemma drivePorts_fields [simp]:
  "s_config (fst (drivePorts flt now js s)) = s_config s"
  "s_current (fst (drivePorts flt now js s)) = s_current s"
  "length (s_ports (fst (drivePorts flt now js s))) = length (s_ports s)"
  by (induction js arbitrary: s) (simp_all add: Let_def)

lemma measureCurrent_fields [simp]:
  "s_config (measureCurrent rc s) = s_config s"
  "s_ports (measureCurrent rc s) = s_ports s"
  "s_probe (measureCurrent rc s) = s_probe s"
  by (simp_all add: measureCurrent_def)

lemma measureCurrent_current:
  "s_current (measureCurrent rc s) =
     (if 0 < current_alpha (s_config s)
      then s_current s * (1 - current_alpha (s_config s)) + rc * current_alpha (s_config s)
      else rc)"
  by (simp add: measureCurrent_def)

lemma loopDrive_fields:
  "s_config (fst (loopDrive flt rd s)) = s_config s"
  "s_current (fst (loopDrive flt rd s)) = s_current (measureCurrent (rd_current rd) s)"
  "length (s_ports (fst (loopDrive flt rd s))) = length (s_ports s)"
  by (simp_all add: loopDrive_def Let_def measureCurrent_current)

lemma loop_overcurrent:
  assumes "1000 \<le> getUsecSince (rd_micros rd) (s_loopUsec s)"
    and "current_max (s_config s) < s_current (measureCurrent (rd_current rd) s)"
  shows "loop flt rd s =
     Some ((fst (releasePorts [0..<length (s_ports s)] (fst (loopDrive flt rd s))))\<lparr>s_probe := Probe_zero\<rparr>,
           fst (snd (loopDrive flt rd s)) @
           snd (releasePorts [0..<length (s_ports s)] (fst (loopDrive flt rd s))) @
           [SetLED OverCurrent 0 (- 1)])"
proof -
  have t: "\<not> getUsecSince (rd_micros rd) (s_loopUsec s) < 1000"
    using assms(1) by (simp add: not_less)
  have c: "current_max (s_config (fst (loopDrive flt rd s))) < s_current (fst (loopDrive flt rd s))"
    using assms(2) by (simp add: loopDrive_fields)
  show ?thesis
    using t c by (simp add: loop_def Let_def loopDrive_fields)
qed

lemma releasePort_eqD: "releasePort i s = (s', fx) \<Longrightarrow> s' = fst (releasePort i s)"
  by simp

lemma triggerPort_fields:
  assumes "triggerPort flt sqrtf to_u32 env port watts seconds fIn fOut s = Some (s', fx)"
  shows "s_config s' = s_config s \<and> s_current s' = s_current s"
  using assms
  by (auto simp: triggerPort_def Let_def split: if_splits dest!: releasePort_eqD)

lemma triggerPort_not_ready:
  assumes "triggerPort flt sqrtf to_u32 env port watts seconds fIn fOut s = Some (s', fx)"
    and "\<not> pr_ready (s_probe s)"
  shows "s' = s"
  using assms by (simp add: triggerPort_def)


lemma measureResistance_fields [simp]:
  "s_config (fst (measureResistance flt rd s)) = s_config s"
  "s_current (fst (measureResistance flt rd s)) = s_current s"
  "s_probe (fst (measureResistance flt rd s)) = s_probe s"
  by (simp_all add: measureResistance_def Let_def)

lemma probeStep_fields:
  assumes "probeStep flt rd s = Some r"
  shows "s_config (fst r) = s_config s \<and> s_current (fst r) = s_current s"
  using assms
  by (auto simp: probeStep_def Let_def split: ProbeState.splits if_splits)

lemma loop_no_overcurrent:
  assumes "loop flt rd s = Some (s', fx)"
    and "\<not> getUsecSince (rd_micros rd) (s_loopUsec s) < 1000"
    and "\<not> current_max (s_config s) < s_current (measureCurrent (rd_current rd) s)"
  shows "s_config s' = s_config s \<and> s_current s' = s_current (measureCurrent (rd_current rd) s)"
proof -
  let ?t = "fst (loopDrive flt rd s)"
  have c: "\<not> current_max (s_config ?t) < s_current ?t"
    using assms(3) by (simp add: loopDrive_fields)
  have "s_config s' = s_config ?t \<and> s_current s' = s_current ?t"
    using assms(1,2) c
    by (auto simp: loop_def Let_def split: if_splits option.splits dest!: probeStep_fields)
  then show ?thesis by (simp add: loopDrive_fields)
qed

lemma loop_overcurrent_shut_down:
  assumes "1000 \<le> getUsecSince (rd_micros rd) (s_loopUsec s)"
    and "current_max (s_config s) < s_current (measureCurrent (rd_current rd) s)"
    and "loop flt rd s = Some (s', fx)"
  shows "shut_down s' \<and> s_config s' = s_config s
       \<and> s_current s' = s_current (measureCurrent (rd_current rd) s)"
proof -
  let ?t = "fst (loopDrive flt rd s)"
  let ?r = "releasePorts [0..<length (s_ports s)] ?t"
  have s': "s' = (fst ?r)\<lparr>s_probe := Probe_zero\<rparr>"
    using loop_overcurrent[OF assms(1,2), of flt] assms(3) by simp
  have rel: "\<forall>p\<in>set (s_ports s'). port_released p"
  proof
    fix p assume "p \<in> set (s_ports s')"
    then obtain k where k: "k < length (s_ports s')" "p = s_ports s' ! k"
      by (auto simp: in_set_conv_nth)
    have "k < length (s_ports ?t)" using k(1) by (simp add: s' loopDrive_fields)
    from releasePorts_nth[OF this, of "[0..<length (s_ports s)]"] k
    show "port_released p" by (simp add: s' loopDrive_fields)
  qed
  show ?thesis using rel by (simp add: shut_down_def s' Probe_zero_def loopDrive_fields)
qed

lemma loop_keeps_cutoff:
  assumes "loop flt rd s = Some (s', fx)"
    and "current_max (s_config s) < s_current s \<longrightarrow> shut_down s"
  shows "current_max (s_config s') < s_current s' \<longrightarrow> shut_down s'"
proof (cases "getUsecSince (rd_micros rd) (s_loopUsec s) < 1000")
  case True
  then have "s' = s" using assms(1) by (simp add: loop_def)
  then show ?thesis using assms(2) by simp
next
  case False
  show ?thesis
  proof (cases "current_max (s_config s) < s_current (measureCurrent (rd_current rd) s)")
    case True
    have "1000 \<le> getUsecSince (rd_micros rd) (s_loopUsec s)"
      using False by (simp add: not_less)
    from loop_overcurrent_shut_down[OF this True assms(1)] show ?thesis by simp
  next
    case no: False
    from loop_no_overcurrent[OF assms(1) False no] no show ?thesis by simp
  qed
qed

lemma reset_shut_down: "shut_down (fst (reset now s))"
  by (simp add: reset_def Let_def shut_down_def port_released_def Probe_zero_def)

lemma reachable_cutoff:
  "reachable flt sqrtf to_u32 s \<Longrightarrow> current_max (s_config s) < s_current s \<longrightarrow> shut_down s"
proof (induction rule: reachable.induct)
  case (after_reset now s)
  then show ?case by (simp add: reset_shut_down)
next
  case (after_loop s rd s' fx)
  then show ?case using loop_keeps_cutoff by blast
next
  case (after_trigger s env port watts seconds fIn fOut s' fx)
  show ?case
  proof (cases "pr_ready (s_probe s)")
    case True
    then have "\<not> current_max (s_config s) < s_current s"
      using after_trigger.IH by (auto simp: shut_down_def Probe_zero_def)
    then show ?thesis using triggerPort_fields[OF after_trigger.hyps(2)] by simp
  next
    case False
    then have "s' = s" using triggerPort_not_ready[OF after_trigger.hyps(2)] by simp
    then show ?thesis using after_trigger.IH by simp
  qed
qed

lemma drivePorts_idle:
  "\<forall>i\<in>set js. p_state (s_ports s ! i) = DriverIdle \<Longrightarrow> drivePorts flt now js s = (s, [], False)"
  by (induction js) (simp_all add: Let_def drivePort_def)

lemma loopDrive_idle:
  assumes "\<forall>p\<in>set (s_ports s). p_state p = DriverIdle"
  shows "s_ports (fst (loopDrive flt rd s)) = s_ports s"
    and "s_probe (fst (loopDrive flt rd s)) = s_probe s"
    and "\<not> snd (snd (loopDrive flt rd s))"
proof -
  have idle: "\<forall>i\<in>set [0..<length (s_ports s)]. p_state (s_ports s' ! i) = DriverIdle"
    if "s_ports s' = s_ports s" for s' :: "'a Solenoids"
    using assms that by simp
  show "s_ports (fst (loopDrive flt rd s)) = s_ports s"
    "s_probe (fst (loopDrive flt rd s)) = s_probe s"
    "\<not> snd (snd (loopDrive flt rd s))"
    by (simp_all add: loopDrive_def Let_def drivePorts_idle idle)
qed

lemma probeStep_Init:
  assumes "s_probe s = Probe_zero" and "probeStep flt rd s = Some r"
  shows "s_ports (fst r) = s_ports s \<and> \<not> pr_ready (s_probe (fst r))"
  using assms by (auto simp: probeStep_def Let_def Probe_zero_def)

lemma loop_after_cutoff:
  assumes "shut_down s"
    and "loop flt rd s = Some (s', fx)"
  shows "(\<forall>p\<in>set (s_ports s'). port_released p) \<and> \<not> pr_ready (s_probe s')"
proof (cases "getUsecSince (rd_micros rd) (s_loopUsec s) < 1000")
  case True
  then have "s' = s" using assms(2) by (simp add: loop_def)
  then show ?thesis using assms(1) by (simp add: shut_down_def Probe_zero_def)
next
  case False
  show ?thesis
  proof (cases "current_max (s_config s) < s_current (measureCurrent (rd_current rd) s)")
    case True
    have "1000 \<le> getUsecSince (rd_micros rd) (s_loopUsec s)"
      using False by (simp add: not_less)
    from loop_overcurrent_shut_down[OF this True assms(2)] show ?thesis
      by (simp add: shut_down_def Probe_zero_def)
  next
    case no: False
    let ?t = "fst (loopDrive flt rd s)"
    have sd: "(\<forall>p\<in>set (s_ports s). port_released p) \<and> s_probe s = Probe_zero"
      using assms(1) by (simp add: shut_down_def)
    have idle: "\<forall>p\<in>set (s_ports s). p_state p = DriverIdle"
      using sd by (simp add: port_released_def)
    note d = loopDrive_idle[OF idle, of flt rd]
    have c: "\<not> current_max (s_config ?t) < s_current ?t"
      using no by (simp add: loopDrive_fields)
    have "s_ports s' = s_ports ?t \<and> \<not> pr_ready (s_probe s')"
      using assms(2) False c d(2,3) sd
      by (auto simp: loop_def Let_def Probe_zero_def split: if_splits option.splits
          dest!: probeStep_Init[rotated])
    then show ?thesis using d(1) sd by simp
  qed
qed


lemma probeStep_Init_total:
  "pr_state (s_probe s) = Init \<Longrightarrow> \<exists>r. probeStep flt rd s = Some r"
  by (simp add: probeStep_def Let_def)

lemma loop_total_after_cutoff:
  assumes "shut_down s"
  shows "\<exists>s' fx. loop flt rd s = Some (s', fx)"
proof -
  let ?t = "fst (loopDrive flt rd s)"
  have idle: "\<forall>p\<in>set (s_ports s). p_state p = DriverIdle"
    using assms by (simp add: shut_down_def port_released_def)
  note d = loopDrive_idle[OF idle, of flt rd]
  have i: "pr_state (s_probe ?t) = Init" using d(2) assms by (simp add: shut_down_def Probe_zero_def)
  obtain r0 where r0: "probeStep flt rd ?t = Some r0"
    using probeStep_Init_total[OF i] by blast
  have i1: "pr_state (s_probe (?t\<lparr>s_powerUsec := 0\<rparr>)) = Init" using i by simp
  obtain r1 where r1: "probeStep flt rd (?t\<lparr>s_powerUsec := 0\<rparr>) = Some r1"
    using probeStep_Init_total[OF i1] by blast
  have "\<exists>r. loop flt rd s = Some r"
    using r0 r1 by (simp add: loop_def Let_def)
  then show ?thesis by auto
qed

lemma loop_overcurrent_result:
  fixes s :: "'f::{zero,one,plus,uminus,minus,times,inverse,ord} Solenoids"
  assumes "1000 \<le> getUsecSince (rd_micros rd) (s_loopUsec s)"
    and "current_max (s_config s) < s_current (measureCurrent (rd_current rd) s)"
  shows "\<exists>s' fx. loop flt rd s = Some (s', fx)
       \<and> length (s_ports s') = length (s_ports s)
       \<and> (\<forall>p\<in>set (s_ports s'). p_state p = DriverIdle \<and> p_duty p = 0 \<and> p_pulse p = Pulse_zero)
       \<and> s_probe s' = Probe_zero \<and> \<not> pr_ready (s_probe s')
       \<and> (\<forall>i<length (s_ports s). last_duty (of_nat i) fx = Some 0)
       \<and> last fx = SetLED OverCurrent 0 (- 1)"
proof -
  let ?t = "fst (loopDrive flt rd s)"
  let ?r = "releasePorts [0..<length (s_ports s)] ?t"
  let ?s' = "(fst ?r)\<lparr>s_probe := Probe_zero\<rparr>"
  let ?fx = "fst (snd (loopDrive flt rd s)) @ snd ?r @ [SetLED OverCurrent 0 (- 1)]"
  have l: "loop flt rd s = Some (?s', ?fx)"
    by (rule loop_overcurrent[OF assms])
  have len: "length (s_ports ?s') = length (s_ports s)"
    by (simp add: loopDrive_fields)
  have rel: "\<forall>p\<in>set (s_ports ?s'). p_state p = DriverIdle \<and> p_duty p = 0 \<and> p_pulse p = Pulse_zero"
  proof
    fix p assume "p \<in> set (s_ports ?s')"
    then obtain k where k: "k < length (s_ports ?s')" "p = s_ports ?s' ! k"
      by (auto simp: in_set_conv_nth)
    have "k < length (s_ports ?t)" using k(1) by (simp add: loopDrive_fields)
    from releasePorts_nth[OF this, of "[0..<length (s_ports s)]"] k
    have "port_released p" by (simp add: loopDrive_fields)
    then show "p_state p = DriverIdle \<and> p_duty p = 0 \<and> p_pulse p = Pulse_zero"
      by (simp add: port_released_def)
  qed
  have duty: "\<forall>i<length (s_ports s). last_duty (of_nat i) ?fx = Some 0"
    by (simp add: last_duty_append releasePorts_duty)
  show ?thesis
    using l len rel duty by (intro exI[of _ ?s'] exI[of _ ?fx]) (simp add: Probe_zero_def)
qed

text \<open>
  Claim C5.  Whenever the filtered current exceeds the configured maximum, one call of
  \<open>loop()\<close> releases every port and makes the probe not ready.  The filtered current
  changes only in a tick of \<open>loop()\<close>, a call that is not inside the 1 ms rate limit.
  First, for any state: a tick at which the filtered current, updated with the reading
  of this tick, exceeds the maximum returns with every port released (state \<open>Idle\<close>,
  duty 0, pulse cleared, and 0 as the last PWM duty set), with the probe reset to its
  initial value, so that \<open>ready\<close> is false, and with the indicator set to
  \<open>OverCurrent\<close> last; nothing is asked of the ports, of the probe or of the
  readings.  Second, for every state the controller can reach from \<open>reset()\<close> by
  calls of \<open>loop()\<close> and \<open>triggerPort()\<close>: while the filtered current exceeds the
  maximum, every port is released and \<open>ready\<close> is false, and every call of
  \<open>loop()\<close> in such a state, rate-limited or not, returns with every port released
  and \<open>ready\<close> false.
\<close>

theorem overcurrent_releases_every_port:
  fixes s :: "'f::{zero,one,plus,uminus,minus,times,inverse,ord} Solenoids"
  shows "(1000 \<le> getUsecSince (rd_micros rd) (s_loopUsec s) \<and>
          current_max (s_config s) < s_current (measureCurrent (rd_current rd) s) \<longrightarrow>
          (\<exists>s' fx. loop flt rd s = Some (s', fx)
             \<and> length (s_ports s') = length (s_ports s)
             \<and> (\<forall>p\<in>set (s_ports s'). p_state p = DriverIdle \<and> p_duty p = 0 \<and> p_pulse p = Pulse_zero)
             \<and> s_probe s' = Probe_zero \<and> \<not> pr_ready (s_probe s')
             \<and> (\<forall>i<length (s_ports s). last_duty (of_nat i) fx = Some 0)
             \<and> last fx = SetLED OverCurrent 0 (- 1)))
       \<and> (reachable flt sqrtf to_uint s \<and> current_max (s_config s) < s_current s \<longrightarrow>
          (\<forall>p\<in>set (s_ports s). p_state p = DriverIdle \<and> p_duty p = 0 \<and> p_pulse p = Pulse_zero)
          \<and> \<not> pr_ready (s_probe s)
          \<and> (\<exists>s1 fx1. loop flt rd s = Some (s1, fx1)
               \<and> (\<forall>p\<in>set (s_ports s1). p_state p = DriverIdle \<and> p_duty p = 0 \<and> p_pulse p = Pulse_zero)
               \<and> \<not> pr_ready (s_probe s1)))"
proof (intro conjI impI)
  assume "1000 \<le> getUsecSince (rd_micros rd) (s_loopUsec s) \<and>
          current_max (s_config s) < s_current (measureCurrent (rd_current rd) s)"
  then show "\<exists>s' fx. loop flt rd s = Some (s', fx)
             \<and> length (s_ports s') = length (s_ports s)
             \<and> (\<forall>p\<in>set (s_ports s'). p_state p = DriverIdle \<and> p_duty p = 0 \<and> p_pulse p = Pulse_zero)
             \<and> s_probe s' = Probe_zero \<and> \<not> pr_ready (s_probe s')
             \<and> (\<forall>i<length (s_ports s). last_duty (of_nat i) fx = Some 0)
             \<and> last fx = SetLED OverCurrent 0 (- 1)"
    using loop_overcurrent_result[of rd s flt] by blast
next
  assume a: "reachable flt sqrtf to_uint s \<and> current_max (s_config s) < s_current s"
  then have sd: "shut_down s" using reachable_cutoff[of flt sqrtf to_uint s] by blast
  show "\<forall>p\<in>set (s_ports s). p_state p = DriverIdle \<and> p_duty p = 0 \<and> p_pulse p = Pulse_zero"
    using sd by (simp add: shut_down_def port_released_def)
  show "\<not> pr_ready (s_probe s)"
    using sd by (simp add: shut_down_def Probe_zero_def)
  obtain s1 fx1 where l: "loop flt rd s = Some (s1, fx1)"
    using loop_total_after_cutoff[OF sd, of flt rd] by blast
  have "(\<forall>p\<in>set (s_ports s1). port_released p) \<and> \<not> pr_ready (s_probe s1)"
    by (rule loop_after_cutoff[OF sd l])
  then show "\<exists>s1 fx1. loop flt rd s = Some (s1, fx1)
               \<and> (\<forall>p\<in>set (s_ports s1). p_state p = DriverIdle \<and> p_duty p = 0 \<and> p_pulse p = Pulse_zero)
               \<and> \<not> pr_ready (s_probe s1)"
    using l by (intro exI[of _ s1] exI[of _ fx1]) (simp add: port_released_def)
qed

theorem overcurrent_releases_every_port_witness:
  "map (\<lambda>p. (p_state p, p_duty p)) (s_ports example_solenoids) = [(Peak, 0.8), (DriverIdle, 0)]
   \<and> pr_ready (s_probe example_solenoids)
   \<and> (\<exists>s' fx. loop (\<lambda>x. x) example_readings example_solenoids = Some (s', fx)
        \<and> map (\<lambda>p. (p_state p, p_duty p)) (s_ports s') = [(DriverIdle, 0), (DriverIdle, 0)]
        \<and> \<not> pr_ready (s_probe s')
        \<and> last_duty 0 fx = Some 0 \<and> last_duty 1 fx = Some 0)
   \<and> (\<exists>s' s'' fx. reachable (\<lambda>x. x) sqrt (\<lambda>x. 0) s'
        \<and> current_max (s_config s') < s_current s'
        \<and> map p_state (s_ports s') = [DriverIdle, DriverIdle] \<and> \<not> pr_ready (s_probe s')
        \<and> loop (\<lambda>x. x) example_readings s' = Some (s'', fx)
        \<and> (\<forall>p\<in>set (s_ports s''). p_state p = DriverIdle) \<and> \<not> pr_ready (s_probe s''))"
proof -
  have h1: "1000 \<le> getUsecSince (rd_micros example_readings) (s_loopUsec example_solenoids)"
    by (simp add: example_readings_def example_solenoids_def getUsecSince_def)
  have h2: "current_max (s_config example_solenoids) <
      s_current (measureCurrent (rd_current example_readings) example_solenoids)"
    by (simp add: example_readings_def example_solenoids_def measureCurrent_def)
  note t = overcurrent_releases_every_port[where flt = "\<lambda>x. x" and sqrtf = sqrt
      and to_uint = "\<lambda>x. 0"]
  obtain s' fx where r: "loop (\<lambda>x. x) example_readings example_solenoids = Some (s', fx)"
    "length (s_ports s') = length (s_ports example_solenoids)"
    "\<forall>p\<in>set (s_ports s'). p_state p = DriverIdle \<and> p_duty p = 0 \<and> p_pulse p = Pulse_zero"
    "\<not> pr_ready (s_probe s')"
    "\<forall>i<length (s_ports example_solenoids). last_duty (of_nat i) fx = Some 0"
    using t[of example_readings example_solenoids, THEN conjunct1] h1 h2 by blast
  have len: "length (s_ports s') = 2" using r(2) by (simp add: example_solenoids_def)
  then obtain p q where pq: "s_ports s' = [p, q]"
    by (cases "s_ports s'"; cases "tl (s_ports s')") auto
  have 1: "map (\<lambda>p. (p_state p, p_duty p)) (s_ports s') = [(DriverIdle, 0), (DriverIdle, 0)]"
    using r(3) pq by simp
  have 2: "last_duty 0 fx = Some 0" "last_duty 1 fx = Some 0"
    using r(5)[rule_format, of 0] r(5)[rule_format, of 1] by (simp_all add: example_solenoids_def)
  let ?s0 = "fst (reset 0 example_solenoids)"
  have g1: "1000 \<le> getUsecSince (rd_micros example_readings) (s_loopUsec ?s0)"
    by (simp add: example_readings_def reset_def Let_def getUsecSince_def)
  have g2: "current_max (s_config ?s0) < s_current (measureCurrent (rd_current example_readings) ?s0)"
    by (simp add: example_readings_def example_solenoids_def reset_def Let_def measureCurrent_def)
  obtain s1 fx1 where l1: "loop (\<lambda>x. x) example_readings ?s0 = Some (s1, fx1)"
    "length (s_ports s1) = length (s_ports ?s0)"
    using t[of example_readings ?s0, THEN conjunct1] g1 g2 by blast
  have cur: "current_max (s_config s1) < s_current s1"
    using loop_overcurrent_shut_down[OF g1 g2 l1(1)] g2 by simp
  have re: "reachable (\<lambda>x. x) sqrt (\<lambda>x. 0) s1"
    by (rule after_loop[OF after_reset l1(1)])
  have sd: "(\<forall>p\<in>set (s_ports s1). p_state p = DriverIdle \<and> p_duty p = 0 \<and> p_pulse p = Pulse_zero)
      \<and> \<not> pr_ready (s_probe s1)"
    using t[of example_readings s1, THEN conjunct2] re cur by blast
  obtain s2 fx2 where l2: "loop (\<lambda>x. x) example_readings s1 = Some (s2, fx2)"
    "\<forall>p\<in>set (s_ports s2). p_state p = DriverIdle \<and> p_duty p = 0 \<and> p_pulse p = Pulse_zero"
    "\<not> pr_ready (s_probe s2)"
    using t[of example_readings s1, THEN conjunct2] re cur by blast
  have "length (s_ports s1) = 2" using l1(2) by (simp add: reset_def Let_def example_solenoids_def)
  then obtain p1 q1 where "s_ports s1 = [p1, q1]"
    by (cases "s_ports s1"; cases "tl (s_ports s1)") auto
  then have 3: "map p_state (s_ports s1) = [DriverIdle, DriverIdle]" using sd by simp
  have 4: "\<exists>s' s'' fx. reachable (\<lambda>x. x) sqrt (\<lambda>x. 0) s'
        \<and> current_max (s_config s') < s_current s'
        \<and> map p_state (s_ports s') = [DriverIdle, DriverIdle] \<and> \<not> pr_ready (s_probe s')
        \<and> loop (\<lambda>x. x) example_readings s' = Some (s'', fx)
        \<and> (\<forall>p\<in>set (s_ports s''). p_state p = DriverIdle) \<and> \<not> pr_ready (s_probe s'')"
    using re cur 3 sd l2 by (intro exI[of _ s1] exI[of _ s2] exI[of _ fx2]) simp
  have 0: "map (\<lambda>p. (p_state p, p_duty p)) (s_ports example_solenoids) = [(Peak, 0.8), (DriverIdle, 0)]"
    "pr_ready (s_probe example_solenoids)"
    by (simp_all add: example_solenoids_def)
  have 5: "\<exists>s' fx. loop (\<lambda>x. x) example_readings example_solenoids = Some (s', fx)
        \<and> map (\<lambda>p. (p_state p, p_duty p)) (s_ports s') = [(DriverIdle, 0), (DriverIdle, 0)]
        \<and> \<not> pr_ready (s_probe s')
        \<and> last_duty 0 fx = Some 0 \<and> last_duty 1 fx = Some 0"
    using r(1,4) 1 2 by (intro exI[of _ s'] exI[of _ fx]) simp
  show ?thesis using 0 4 5 by simp
qed

section \<open>Requests with a foreign token\<close>

text \<open>
  Claim C10.  \<open>handleSystemExclusive\<close> ignores a request whose \<open>token\<close> is present
  (not null) and differs from the boot id of the device: however the message is framed
  and whatever method and arguments it carries, the handler returns with the device
  unchanged and without any reply or other action.
\<close>

theorem token_mismatch_ignored:
  assumes "pf_deserializeJson pf (drop 2 buffer) = Some doc"
    and "\<not> isNull (member (member doc ''com.versioduo.device'') ''token'')"
    and "ne_u32 (member (member doc ''com.versioduo.device'') ''token'') (d_boot_id d)"
  shows "handleSystemExclusive pf buffer d = (d, [])
       \<and> handleRequest pf doc d = (d, [])"
  using assms by (simp add: handleSystemExclusive_def handleRequest_def Let_def)

theorem token_mismatch_ignored_witness:
  "handleSystemExclusive (example_platform (example_request 0x9999)) example_message example_device =
     (example_device, [])
   \<and> handleSystemExclusive (example_platform (example_request 0x1234)) example_message example_device =
     (example_device\<lparr>d_bootData_enableAccess := True\<rparr>, [Firmware_reboot])"
proof -
  have 1: "handleSystemExclusive (example_platform (example_request 0x9999)) example_message example_device =
     (example_device, [])"
    using token_mismatch_ignored[of "example_platform (example_request 0x9999)" example_message
        "example_request 0x9999" example_device]
    by (simp add: example_platform_def example_request_def example_device_def)
  have 2: "handleSystemExclusive (example_platform (example_request 0x1234)) example_message example_device =
     (example_device\<lparr>d_bootData_enableAccess := True\<rparr>, [Firmware_reboot])"
    by (simp add: handleSystemExclusive_def handleRequest_def Let_def example_platform_def
        example_request_def example_device_def example_message_def nth_append)
  show ?thesis using 1 2 by simp
qed

end
